theory Spec2Isabelle
  imports Main "HOL-Library.Sublist"
begin

section \<open>Python strings and the character classes the code relies on\<close>

text \<open>
  A Python \<open>str\<close> is a sequence of code points and \<open>len\<close> counts code points. The model
  takes a \<open>char\<close> to be the code point with the same number, so a \<open>string\<close> here is a
  Python string over the code points 0..255 (ASCII and Latin-1), and \<open>length\<close> is \<open>len\<close>.
  Each character class below is the one CPython computes on that range.
\<close>

definition code_point :: "char \<Rightarrow> nat" where
  "code_point c = of_char c"

text \<open>
  \<open>str.isdigit\<close> on one character: the decimal digits \<open>0\<close>..\<open>9\<close> and, as the Python
  documentation says, "digits that need special handling, such as the compatibility
  superscript digits": U+00B2, U+00B3 and U+00B9 in this range.
\<close>

definition char_isdigit :: "char \<Rightarrow> bool" where
  "char_isdigit c = (let n = code_point c in
     (48 \<le> n \<and> n \<le> 57) \<or> n = 178 \<or> n = 179 \<or> n = 185)"

text \<open>The characters \<open>0\<close>..\<open>9\<close> alone: what \<open>str.isdecimal\<close> accepts on this range.\<close>

definition char_isdecimal :: "char \<Rightarrow> bool" where
  "char_isdecimal c = (let n = code_point c in 48 \<le> n \<and> n \<le> 57)"

text \<open>
  \<open>str.isalpha\<close> on one character (general categories Lu, Ll, Lt, Lm, Lo): the ASCII
  letters, U+00AA, U+00B5, U+00BA, and U+00C0..U+00FF without the two signs U+00D7 and
  U+00F7.
\<close>

definition char_isalpha :: "char \<Rightarrow> bool" where
  "char_isalpha c = (let n = code_point c in
     (65 \<le> n \<and> n \<le> 90) \<or> (97 \<le> n \<and> n \<le> 122) \<or> n = 170 \<or> n = 181 \<or> n = 186 \<or>
     (192 \<le> n \<and> n \<le> 255 \<and> n \<noteq> 215 \<and> n \<noteq> 247))"

text \<open>
  \<open>str.isnumeric\<close> on one character: the digits above and the vulgar fractions
  U+00BC..U+00BE.
\<close>

definition char_isnumeric :: "char \<Rightarrow> bool" where
  "char_isnumeric c = (let n = code_point c in char_isdigit c \<or> (188 \<le> n \<and> n \<le> 190))"

text \<open>\<open>str.isalnum\<close>: alphabetic, decimal, digit or numeric.\<close>

definition char_isalnum :: "char \<Rightarrow> bool" where
  "char_isalnum c = (char_isalpha c \<or> char_isdecimal c \<or> char_isdigit c \<or> char_isnumeric c)"

text \<open>
  \<open>str.isspace\<close> on one character: tab, line feed, vertical tab, form feed, carriage
  return, the four separators U+001C..U+001F, space, U+0085 and U+00A0.
\<close>

definition char_isspace :: "char \<Rightarrow> bool" where
  "char_isspace c = (let n = code_point c in
     (9 \<le> n \<and> n \<le> 13) \<or> (28 \<le> n \<and> n \<le> 32) \<or> n = 133 \<or> n = 160)"

text \<open>
  The classes of the \<open>re\<close> module for \<open>str\<close> patterns: \<open>\w\<close> is \<open>isalnum\<close> or the
  underscore, \<open>\s\<close> is \<open>isspace\<close>.
\<close>

definition re_word :: "char \<Rightarrow> bool" where
  "re_word c = (char_isalnum c \<or> c = CHR ''_'')"

definition re_space :: "char \<Rightarrow> bool" where
  "re_space c = char_isspace c"

text \<open>\<open>s.isdigit()\<close>: false on the empty string, else every character is a digit.\<close>

definition isdigit :: "string \<Rightarrow> bool" where
  "isdigit s = (s \<noteq> [] \<and> list_all char_isdigit s)"

text \<open>\<open>s.replace(c, '')\<close> for a one-character \<open>c\<close>: every occurrence is removed.\<close>

definition remove_char :: "char \<Rightarrow> string \<Rightarrow> string" where
  "remove_char c s = filter (\<lambda>x. x \<noteq> c) s"

text \<open>\<open>s.endswith(t)\<close>.\<close>

definition endswith :: "string \<Rightarrow> string \<Rightarrow> bool" where
  "endswith s t = (length t \<le> length s \<and> drop (length s - length t) s = t)"

text \<open>\<open>t in s\<close> for strings: \<open>t\<close> occurs in \<open>s\<close> as a contiguous run.\<close>

fun contains :: "string \<Rightarrow> string \<Rightarrow> bool" where
  "contains [] t = (t = [])"
| "contains (x # xs) t = (take (length t) (x # xs) = t \<or> contains xs t)"

section \<open>Cells\<close>

text \<open>
  A cell of a DataFrame read by \<open>pd.read_csv\<close>: a missing value (NaN, or the \<open>None\<close>
  the cleaning functions return; \<open>pd.isna\<close> is true of both and nothing in the code
  tells them apart), a string, an integer or a boolean. Floating-point cells other than
  NaN are outside the model.
\<close>

datatype cell = Null | Str string | Num int | Bool bool

definition isna :: "cell \<Rightarrow> bool" where
  "isna c = (c = Null)"

definition digit_char :: "nat \<Rightarrow> char" where
  "digit_char d = char_of (48 + d)"

fun nat_digits :: "nat \<Rightarrow> string" where
  "nat_digits n = (if n < 10 then [digit_char n] else nat_digits (n div 10) @ [digit_char (n mod 10)])"

declare nat_digits.simps [simp del]

text \<open>
  \<open>str(x)\<close> of a cell. The code calls it only after \<open>pd.isna\<close> has returned false; the
  value at \<open>Null\<close> is what Python prints for NaN.
\<close>

fun py_str :: "cell \<Rightarrow> string" where
  "py_str Null = ''nan''"
| "py_str (Str s) = s"
| "py_str (Num i) = (if i < 0 then CHR ''-'' # nat_digits (nat (- i)) else nat_digits (nat i))"
| "py_str (Bool b) = (if b then ''True'' else ''False'')"

section \<open>The two cleaning functions\<close>

text \<open>
  \<^verbatim>\<open>
  def clean_and_validate_phone(phone):
      if pd.isna(phone):
          return None
      phone = str(phone).replace('+', '').replace(' ', '')
      if len(phone) == 10 and phone.isdigit():
          return phone
      return 'invalid'
  \<close>
\<close>

definition clean_and_validate_phone :: "cell \<Rightarrow> cell" where
  "clean_and_validate_phone phone =
     (if isna phone then Null
      else let p = remove_char CHR '' '' (remove_char CHR ''+'' (py_str phone))
           in if length p = 10 \<and> isdigit p then Str p else Str ''invalid'')"

text \<open>
  \<^verbatim>\<open>
  def clean_descriptive_field(text):
      if pd.isna(text):
          return None
      return re.sub(r'[^\w\s,]', '', str(text))
  \<close>
  The substitution deletes every character outside the class \<open>[\w\s,]\<close>.
\<close>

definition clean_descriptive_field :: "cell \<Rightarrow> cell" where
  "clean_descriptive_field text =
     (if isna text then Null
      else Str (filter (\<lambda>c. re_word c \<or> re_space c \<or> c = CHR '','') (py_str text)))"

section \<open>DataFrames\<close>

text \<open>
  A DataFrame is its list of column labels and its rows. A row gives every column its
  cell; what it holds at a label outside \<open>columns\<close> has no meaning. Reading a column that
  is not there raises \<open>KeyError\<close>.
\<close>

type_synonym row = "string \<Rightarrow> cell"

record dataframe =
  columns :: "string list"
  rows :: "row list"

datatype error = KeyError string | FileNotFoundError string | ReadError

text \<open>\<open>df[c] = series\<close>, the series given row by row: a new label goes last.\<close>

definition setitem :: "dataframe \<Rightarrow> string \<Rightarrow> (row \<Rightarrow> cell) \<Rightarrow> dataframe" where
  "setitem df c f =
     \<lparr>columns = (if c \<in> set (columns df) then columns df else columns df @ [c]),
      rows = map (\<lambda>r. r(c := f r)) (rows df)\<rparr>"

text \<open>\<open>df.loc[mask, c] = v\<close>, the mask a boolean series computed beforehand.\<close>

definition loc_set :: "dataframe \<Rightarrow> bool list \<Rightarrow> string \<Rightarrow> cell \<Rightarrow> dataframe" where
  "loc_set df msk c v =
     df\<lparr>rows := map2 (\<lambda>m r. if m then r(c := v) else r) msk (rows df)\<rparr>"

text \<open>
  \<open>+\<close> on a cell and a string. The code applies it to the column \<open>issue_type\<close> only,
  which holds a string on every row from the first line of the module on.
\<close>

fun cell_concat :: "cell \<Rightarrow> string \<Rightarrow> cell" where
  "cell_concat (Str a) s = Str (a @ s)"
| "cell_concat c s = c"

text \<open>\<open>df.loc[mask, c] += s\<close>.\<close>

definition loc_add :: "dataframe \<Rightarrow> bool list \<Rightarrow> string \<Rightarrow> string \<Rightarrow> dataframe" where
  "loc_add df msk c s =
     df\<lparr>rows := map2 (\<lambda>m r. if m then r(c := cell_concat (r c) s) else r) msk (rows df)\<rparr>"

text \<open>\<open>df.drop(columns=[c])\<close>.\<close>

definition drop_column :: "dataframe \<Rightarrow> string \<Rightarrow> dataframe" where
  "drop_column df c = df\<lparr>columns := filter (\<lambda>x. x \<noteq> c) (columns df)\<rparr>"

text \<open>\<open>df[mask]\<close>: the rows at which the boolean series holds.\<close>

definition getrows :: "dataframe \<Rightarrow> bool list \<Rightarrow> dataframe" where
  "getrows df msk = df\<lparr>rows := map snd (filter fst (zip msk (rows df)))\<rparr>"

text \<open>\<open>df.empty\<close>: some axis has length zero.\<close>

definition empty_df :: "dataframe \<Rightarrow> bool" where
  "empty_df df = (rows df = [] \<or> columns df = [])"

section \<open>Module 2: the data quality check\<close>

text \<open>
  The module is one function in the source; the model cuts it at its comments into four
  blocks and runs them in the source's order. Each \<open>df[c]\<close> on a missing column raises
  \<open>KeyError\<close>, which leaves the function.
  \<^verbatim>\<open>
  df['is_bad'] = False
  df['issue_type'] = ''
  \<close>
\<close>

definition init_columns :: "dataframe \<Rightarrow> dataframe" where
  "init_columns df0 =
     (let df = setitem df0 ''is_bad'' (\<lambda>r. Bool False)
      in setitem df ''issue_type'' (\<lambda>r. Str []))"

text \<open>
  \<^verbatim>\<open>
  df['phone_cleaned'] = df['phone'].apply(clean_and_validate_phone)
  phone_issue_mask = (df['phone_cleaned'] == 'invalid')
  df.loc[phone_issue_mask, 'is_bad'] = True
  df.loc[phone_issue_mask, 'issue_type'] += 'invalid_phone;'
  df['phone'] = df['phone_cleaned']
  df = df.drop(columns=['phone_cleaned'])
  \<close>
\<close>

definition phone_rule :: "dataframe \<Rightarrow> error + dataframe" where
  "phone_rule df0 =
     (if ''phone'' \<notin> set (columns df0) then Inl (KeyError ''phone'')
      else
        let df = setitem df0 ''phone_cleaned'' (\<lambda>r. clean_and_validate_phone (r ''phone''));
            phone_issue_mask = map (\<lambda>r. r ''phone_cleaned'' = Str ''invalid'') (rows df);
            df = loc_set df phone_issue_mask ''is_bad'' (Bool True);
            df = loc_add df phone_issue_mask ''issue_type'' ''invalid_phone;'';
            df = setitem df ''phone'' (\<lambda>r. r ''phone_cleaned'')
        in Inr (drop_column df ''phone_cleaned''))"

text \<open>
  \<^verbatim>\<open>
  required_fields = ['name', 'phone', 'location']
  for field in required_fields:
      null_mask = df[field].isnull()
      df.loc[null_mask, 'is_bad'] = True
      df.loc[null_mask, 'issue_type'] += f'null_{field};'
  \<close>
\<close>

definition required_fields :: "string list" where
  "required_fields = [''name'', ''phone'', ''location'']"

fun null_checks :: "dataframe \<Rightarrow> string list \<Rightarrow> error + dataframe" where
  "null_checks df [] = Inr df"
| "null_checks df (field # rest) =
     (if field \<notin> set (columns df) then Inl (KeyError field)
      else let null_mask = map (\<lambda>r. isna (r field)) (rows df);
               df = loc_set df null_mask ''is_bad'' (Bool True);
               df = loc_add df null_mask ''issue_type'' (''null_'' @ field @ '';'')
           in null_checks df rest)"

text \<open>
  \<^verbatim>\<open>
  df['address'] = df['address'].apply(clean_descriptive_field)
  df['reviews_list'] = df['reviews_list'].apply(clean_descriptive_field)
  \<close>
\<close>

definition descriptive_rule :: "dataframe \<Rightarrow> error + dataframe" where
  "descriptive_rule df0 =
     (if ''address'' \<notin> set (columns df0) then Inl (KeyError ''address'')
      else
        let df = setitem df0 ''address'' (\<lambda>r. clean_descriptive_field (r ''address''))
        in if ''reviews_list'' \<notin> set (columns df) then Inl (KeyError ''reviews_list'')
           else Inr (setitem df ''reviews_list''
                       (\<lambda>r. clean_descriptive_field (r ''reviews_list''))))"

definition data_quality_check_module :: "dataframe \<Rightarrow> error + dataframe" where
  "data_quality_check_module df0 =
     (case phone_rule (init_columns df0) of
        Inl e \<Rightarrow> Inl e
      | Inr df \<Rightarrow>
          (case null_checks df required_fields of
             Inl e \<Rightarrow> Inl e
           | Inr df \<Rightarrow> descriptive_rule df))"

subsection \<open>The blocks, row by row\<close>

text \<open>
  Every statement of the module acts on each row by itself. The functions below say what
  each block does to one row; the lemmas of the section on the module prove that the
  blocks are these functions mapped over the rows.
\<close>

definition init_step :: "row \<Rightarrow> row" where
  "init_step r = (r(''is_bad'' := Bool False))(''issue_type'' := Str [])"

definition phone_step :: "row \<Rightarrow> row" where
  "phone_step r =
     (let r3 = r(''phone_cleaned'' := clean_and_validate_phone (r ''phone''));
          r4 = (if r3 ''phone_cleaned'' = Str ''invalid'' then r3(''is_bad'' := Bool True) else r3);
          r5 = (if r3 ''phone_cleaned'' = Str ''invalid''
                then r4(''issue_type'' := cell_concat (r4 ''issue_type'') ''invalid_phone;'')
                else r4)
      in r5(''phone'' := r5 ''phone_cleaned''))"

definition null_step :: "string \<Rightarrow> row \<Rightarrow> row" where
  "null_step field r =
     (if isna (r field)
      then (r(''is_bad'' := Bool True))
             (''issue_type'' := cell_concat (r ''issue_type'') (''null_'' @ field @ '';''))
      else r)"

definition clean_step :: "row \<Rightarrow> row" where
  "clean_step r =
     (let r1 = r(''address'' := clean_descriptive_field (r ''address''))
      in r1(''reviews_list'' := clean_descriptive_field (r1 ''reviews_list'')))"

text \<open>
  The whole module on one row: the tags in the order the statements append them, and the
  cells that are overwritten.
\<close>

definition issue_tags :: "row \<Rightarrow> string" where
  "issue_tags r =
     (let p = clean_and_validate_phone (r ''phone'')
      in (if p = Str ''invalid'' then ''invalid_phone;'' else [])
       @ (if isna (r ''name'') then ''null_name;'' else [])
       @ (if isna p then ''null_phone;'' else [])
       @ (if isna (r ''location'') then ''null_location;'' else []))"

definition annotate_row :: "row \<Rightarrow> row" where
  "annotate_row r =
     r(''is_bad'' := Bool (issue_tags r \<noteq> []),
       ''issue_type'' := Str (issue_tags r),
       ''phone_cleaned'' := clean_and_validate_phone (r ''phone''),
       ''phone'' := clean_and_validate_phone (r ''phone''),
       ''address'' := clean_descriptive_field (r ''address''),
       ''reviews_list'' := clean_descriptive_field (r ''reviews_list''))"

text \<open>The five columns the module reads.\<close>

definition has_columns :: "dataframe \<Rightarrow> bool" where
  "has_columns df = (''phone'' \<in> set (columns df) \<and> ''name'' \<in> set (columns df) \<and>
     ''location'' \<in> set (columns df) \<and> ''address'' \<in> set (columns df) \<and>
     ''reviews_list'' \<in> set (columns df))"

text \<open>The phone number the phone rule looks at: \<open>str(phone)\<close> without \<open>+\<close> and spaces.\<close>

definition normalized_phone :: "cell \<Rightarrow> string" where
  "normalized_phone phone = remove_char CHR '' '' (remove_char CHR ''+'' (py_str phone))"

section \<open>Paths and time stamps\<close>

text \<open>\<open>s.rfind(c)\<close> for a character: the index of its last occurrence.\<close>

definition rfind :: "string \<Rightarrow> char \<Rightarrow> nat option" where
  "rfind s c =
     (if c \<in> set s then Some (length s - 1 - length (takeWhile (\<lambda>x. x \<noteq> c) (rev s))) else None)"

text \<open>\<open>os.path.basename\<close> (POSIX): what follows the last slash.\<close>

definition basename :: "string \<Rightarrow> string" where
  "basename p = (case rfind p CHR ''/'' of None \<Rightarrow> p | Some i \<Rightarrow> drop (i + 1) p)"

text \<open>
  \<open>os.path.splitext\<close> (POSIX): the path is cut at its last dot when that dot lies in the
  last component and some character of the component before it is not a dot.
\<close>

definition splitext :: "string \<Rightarrow> string \<times> string" where
  "splitext p =
     (case rfind p CHR ''.'' of
        None \<Rightarrow> (p, [])
      | Some d \<Rightarrow>
          (let start = (case rfind p CHR ''/'' of None \<Rightarrow> 0 | Some i \<Rightarrow> i + 1)
           in if start \<le> d \<and> list_ex (\<lambda>c. c \<noteq> CHR ''.'') (take (d - start) (drop start p))
              then (take d p, drop d p) else (p, [])))"

text \<open>\<open>os.path.join(a, b)\<close> (POSIX).\<close>

definition path_join :: "string \<Rightarrow> string \<Rightarrow> string" where
  "path_join a b =
     (if b \<noteq> [] \<and> hd b = CHR ''/'' then b
      else if a = [] \<or> last a = CHR ''/'' then a @ b
      else a @ ''/'' @ b)"

record datetime =
  year :: nat
  month :: nat
  day :: nat
  hour :: nat
  minute :: nat
  second :: nat
  microsecond :: nat

definition zero_pad :: "nat \<Rightarrow> nat \<Rightarrow> string" where
  "zero_pad width n = replicate (width - length (nat_digits n)) CHR ''0'' @ nat_digits n"

text \<open>\<open>t.strftime('%Y%m%d%H%M%S')\<close>.\<close>

definition strftime :: "datetime \<Rightarrow> string" where
  "strftime t = zero_pad 4 (year t) @ zero_pad 2 (month t) @ zero_pad 2 (day t)
     @ zero_pad 2 (hour t) @ zero_pad 2 (minute t) @ zero_pad 2 (second t)"

section \<open>The world the pipeline runs in\<close>

text \<open>
  One line of \<open>processed_files.csv\<close>. The date is kept as the \<open>datetime\<close> whose ISO form
  the file holds.
\<close>

record ledger_record =
  file_name :: string
  processed_date :: datetime

text \<open>
  An input file: its size in bytes, and what \<open>pd.read_csv\<close> does on it, the table it
  returns or the exception it raises.
\<close>

record input_file =
  fsize :: nat
  parsed :: "error + dataframe"

datatype reason = AlreadyProcessed | EmptyFile | InvalidExtension

text \<open>The calls to \<open>logging\<close>, one constructor for each message of the source.\<close>

datatype message =
    Skipping string reason
  | Processing string
  | ErrorReading string error
  | CleanWritten string
  | BadWritten string
  | Complete

text \<open>The writes to the file system, in the order they happen.\<close>

datatype effect = WriteClean string | WriteBad string | WriteLedger string

text \<open>
  The state: the ledger file (\<open>None\<close> while \<open>processed_files.csv\<close> does not exist), the
  input files, the output files written so far, the directories created, the log, the
  trace of writes, and the clock as the sequence of times its successive readings return.
  Output files end in \<open>.out\<close> or \<open>.bad\<close> and the files the directory scan returns end in
  \<open>.csv\<close>, so writing an output never changes an input.
\<close>

record world =
  ledger :: "ledger_record list option"
  inputs :: "string \<Rightarrow> input_file option"
  outputs :: "string \<Rightarrow> dataframe option"
  dirs :: "string set"
  logged :: "message list"
  trace :: "effect list"
  clock :: "nat \<Rightarrow> datetime"
  ticks :: nat

definition logging :: "message \<Rightarrow> world \<Rightarrow> world" where
  "logging m w = w\<lparr>logged := logged w @ [m]\<rparr>"

text \<open>\<open>datetime.now()\<close>.\<close>

definition now :: "world \<Rightarrow> datetime \<times> world" where
  "now w = (clock w (ticks w), w\<lparr>ticks := Suc (ticks w)\<rparr>)"

text \<open>\<open>os.path.getsize\<close> and \<open>pd.read_csv\<close> on an input path.\<close>

definition getsize :: "world \<Rightarrow> string \<Rightarrow> error + nat" where
  "getsize w p = (case inputs w p of None \<Rightarrow> Inl (FileNotFoundError p) | Some f \<Rightarrow> Inr (fsize f))"

definition read_csv :: "world \<Rightarrow> string \<Rightarrow> error + dataframe" where
  "read_csv w p = (case inputs w p of None \<Rightarrow> Inl (FileNotFoundError p) | Some f \<Rightarrow> parsed f)"

section \<open>The ledger of processed files\<close>

text \<open>
  \<^verbatim>\<open>
  def load_processed_files():
      if os.path.exists(PROCESSED_FILES_LOG):
          processed_df = pd.read_csv(PROCESSED_FILES_LOG)
          return set(processed_df['file_name'])
      return set()
  \<close>
\<close>

definition load_processed_files :: "world \<Rightarrow> string set" where
  "load_processed_files w =
     (case ledger w of Some processed_df \<Rightarrow> set (map file_name processed_df) | None \<Rightarrow> {})"

text \<open>
  \<^verbatim>\<open>
  def save_processed_files(file_name):
      data = {'file_name': [file_name], 'processed_date': [datetime.now().isoformat()]}
      new_record_df = pd.DataFrame(data)
      if os.path.exists(PROCESSED_FILES_LOG):
          processed_df = pd.read_csv(PROCESSED_FILES_LOG)
          updated_df = pd.concat([processed_df, new_record_df], ignore_index=True)
      else:
          updated_df = new_record_df
      updated_df.to_csv(PROCESSED_FILES_LOG, index=False)
  \<close>
\<close>

definition save_processed_files :: "string \<Rightarrow> world \<Rightarrow> world" where
  "save_processed_files name w0 =
     (let (t, w) = now w0;
          new_record_df = [\<lparr>file_name = name, processed_date = t\<rparr>];
          updated_df = (case ledger w of
                          Some processed_df \<Rightarrow> processed_df @ new_record_df
                        | None \<Rightarrow> new_record_df)
      in w\<lparr>ledger := Some updated_df, trace := trace w @ [WriteLedger name]\<rparr>)"

section \<open>Module 1: the file check\<close>

text \<open>
  \<^verbatim>\<open>
  def file_check_module(file_path):
      processed_files = load_processed_files()
      file_name = os.path.basename(file_path)
      if file_name in processed_files:
          logging.warning(f"Skipping '{file_name}': Already processed.")
          return False
      if os.path.getsize(file_path) == 0:
          logging.warning(f"Skipping '{file_name}': File is empty.")
          return False
      if not file_path.endswith('.csv'):
          logging.warning(f"Skipping '{file_name}': Invalid file extension.")
          return False
      return True
  \<close>
  \<open>os.path.getsize\<close> raises when the file is not there.
\<close>

definition file_check_module :: "world \<Rightarrow> string \<Rightarrow> error + (bool \<times> world)" where
  "file_check_module w file_path =
     (let processed_files = load_processed_files w;
          name = basename file_path
      in if name \<in> processed_files
         then Inr (False, logging (Skipping name AlreadyProcessed) w)
         else case getsize w file_path of
                Inl e \<Rightarrow> Inl e
              | Inr n \<Rightarrow>
                  if n = 0 then Inr (False, logging (Skipping name EmptyFile) w)
                  else if \<not> endswith file_path ''.csv''
                  then Inr (False, logging (Skipping name InvalidExtension) w)
                  else Inr (True, w))"

text \<open>
  The admission gate as the specification words it: three predicates in a fixed order,
  the first that matches is the answer.
\<close>

datatype admission = Admit | Skip reason

definition admit :: "string set \<Rightarrow> nat \<Rightarrow> string \<Rightarrow> admission" where
  "admit processed n file_path =
     (if basename file_path \<in> processed then Skip AlreadyProcessed
      else if n = 0 then Skip EmptyFile
      else if \<not> endswith file_path ''.csv'' then Skip InvalidExtension
      else Admit)"

section \<open>Writing the output files\<close>

text \<open>
  \<^verbatim>\<open>
  def write_output_files(df, output_dir, file_name_base):
      if not os.path.exists(output_dir):
          os.makedirs(output_dir)
      current_timestamp = datetime.now().strftime('%Y%m%d%H%M%S')
      clean_records = df[~df['is_bad']].drop(columns=['is_bad', 'issue_type'])
      bad_records = df[df['is_bad']]
      clean_file_path = os.path.join(output_dir, f"{file_name_base}_cleaned_{current_timestamp}.out")
      clean_records.to_csv(clean_file_path, index=False)
      logging.info(f"Clean records written to: {clean_file_path}")
      if not bad_records.empty:
          bad_file_path = os.path.join(output_dir, f"{file_name_base}.bad")
          bad_records.to_csv(bad_file_path, index=False)
          logging.warning(f"Bad records written to: {bad_file_path}")
  \<close>
\<close>

definition write_output_files :: "dataframe \<Rightarrow> string \<Rightarrow> string \<Rightarrow> world \<Rightarrow> world" where
  "write_output_files df output_dir file_name_base w0 =
     (let w = w0\<lparr>dirs := insert output_dir (dirs w0)\<rparr>;
          (t, w) = now w;
          current_timestamp = strftime t;
          clean_records =
            drop_column
              (drop_column (getrows df (map (\<lambda>r. r ''is_bad'' = Bool False) (rows df))) ''is_bad'')
              ''issue_type'';
          bad_records = getrows df (map (\<lambda>r. r ''is_bad'' = Bool True) (rows df));
          clean_file_path =
            path_join output_dir (file_name_base @ ''_cleaned_'' @ current_timestamp @ ''.out'');
          w = w\<lparr>outputs := (outputs w)(clean_file_path \<mapsto> clean_records),
                trace := trace w @ [WriteClean clean_file_path]\<rparr>;
          w = logging (CleanWritten clean_file_path) w
      in if \<not> empty_df bad_records
         then let bad_file_path = path_join output_dir (file_name_base @ ''.bad'');
                  w = w\<lparr>outputs := (outputs w)(bad_file_path \<mapsto> bad_records),
                        trace := trace w @ [WriteBad bad_file_path]\<rparr>
              in logging (BadWritten bad_file_path) w
         else w)"

section \<open>The orchestrator\<close>

text \<open>
  \<^verbatim>\<open>
  for file_path in csv_files:
      if file_check_module(file_path):
          file_name = os.path.basename(file_path)
          file_base_name = os.path.splitext(file_name)[0]
          logging.warning(f"\nProcessing '{file_name}'...")
          try:
              df = pd.read_csv(file_path)
          except Exception as e:
              logging.warning(f"Error reading file '{file_name}': {e}. Skipping.")
              continue
          df = data_quality_check_module(df)
          write_output_files(df, output_dir, file_base_name)
          save_processed_files(file_name)
  \<close>
  One round of the loop gives the new state and, when an exception leaves the loop, that
  exception. Only the read is inside \<open>try\<close>: an exception of \<open>os.path.getsize\<close> or of
  \<open>data_quality_check_module\<close> is not caught.
\<close>

definition loop_body :: "string \<Rightarrow> string \<Rightarrow> world \<Rightarrow> world \<times> error option" where
  "loop_body output_dir file_path w0 =
     (case file_check_module w0 file_path of
        Inl e \<Rightarrow> (w0, Some e)
      | Inr (ok, w) \<Rightarrow>
          if \<not> ok then (w, None)
          else
            let name = basename file_path;
                file_base_name = fst (splitext name);
                w = logging (Processing name) w
            in case read_csv w file_path of
                 Inl e \<Rightarrow> (logging (ErrorReading name e) w, None)
               | Inr df0 \<Rightarrow>
                   (case data_quality_check_module df0 of
                      Inl e \<Rightarrow> (w, Some e)
                    | Inr df \<Rightarrow>
                        let w = write_output_files df output_dir file_base_name w;
                            w = save_processed_files name w
                        in (w, None)))"

fun main_loop :: "string \<Rightarrow> string list \<Rightarrow> world \<Rightarrow> world \<times> error option" where
  "main_loop output_dir [] w = (w, None)"
| "main_loop output_dir (file_path # rest) w =
     (case loop_body output_dir file_path w of
        (w', Some e) \<Rightarrow> (w', Some e)
      | (w', None) \<Rightarrow> main_loop output_dir rest w')"

text \<open>
  \<open>main\<close>, with the list \<open>glob.glob\<close> returns for \<open>input_dir\<close> in place of \<open>input_dir\<close>:
  the loop, then the closing message. The result holds the exception that ended the run,
  if one did.
\<close>

definition main :: "string list \<Rightarrow> string \<Rightarrow> world \<Rightarrow> world \<times> error option" where
  "main csv_files output_dir w =
     (case main_loop output_dir csv_files w of
        (w', Some e) \<Rightarrow> (w', Some e)
      | (w', None) \<Rightarrow> (logging Complete w', None))"

section \<open>Example tables\<close>

definition example_row_ok :: row where
  "example_row_ok = (\<lambda>c. Null)
     (''name'' := Str ''Ann'', ''phone'' := Str ''555 123 4567'', ''location'' := Str ''Austin'',
      ''address'' := Str ''12 Main St., #4'', ''reviews_list'' := Str ''Good!'')"

definition example_row_bad_phone :: row where
  "example_row_bad_phone = example_row_ok(''phone'' := Str ''12345'')"

definition example_row_no_phone :: row where
  "example_row_no_phone = example_row_ok(''phone'' := Null)"

definition example_df :: dataframe where
  "example_df =
     \<lparr>columns = [''name'', ''phone'', ''location'', ''address'', ''reviews_list''],
      rows = [example_row_ok, example_row_bad_phone, example_row_no_phone]\<rparr>"

text \<open>Ten times the character U+00B2, superscript two.\<close>

definition superscript_twos :: string where
  "superscript_twos = replicate 10 (CHR 0xB2)"

section \<open>Notions used to state the properties of a run\<close>

text \<open>The file names in the ledger, in the order of its lines.\<close>

definition ledger_names :: "world \<Rightarrow> string list" where
  "ledger_names w = (case ledger w of None \<Rightarrow> [] | Some processed_df \<Rightarrow> map file_name processed_df)"

text \<open>Two states that differ in the log at most: no file was written between them.\<close>

definition quiet :: "world \<Rightarrow> world \<Rightarrow> bool" where
  "quiet w w' = (w' = w\<lparr>logged := logged w'\<rparr>)"

text \<open>
  What the loop does with a path whose base name is not in the ledger depends on the
  input files alone. The file is processed when it is there, is not empty, ends in
  \<open>.csv\<close>, can be read, and its table passes the quality module.
\<close>

definition processable :: "(string \<Rightarrow> input_file option) \<Rightarrow> string \<Rightarrow> bool" where
  "processable inp p =
     (case inp p of
        None \<Rightarrow> False
      | Some f \<Rightarrow>
          fsize f \<noteq> 0 \<and> endswith p ''.csv'' \<and>
          (case parsed f of
             Inl e \<Rightarrow> False
           | Inr df0 \<Rightarrow> (case data_quality_check_module df0 of Inl e \<Rightarrow> False | Inr df \<Rightarrow> True)))"

text \<open>
  An exception leaves the loop when the file is not there, or when it can be read and the
  quality module raises.
\<close>

definition raises :: "(string \<Rightarrow> input_file option) \<Rightarrow> string \<Rightarrow> error option" where
  "raises inp p =
     (case inp p of
        None \<Rightarrow> Some (FileNotFoundError p)
      | Some f \<Rightarrow>
          if fsize f \<noteq> 0 \<and> endswith p ''.csv''
          then (case parsed f of
                  Inl e \<Rightarrow> None
                | Inr df0 \<Rightarrow> (case data_quality_check_module df0 of Inl e \<Rightarrow> Some e | Inr df \<Rightarrow> None))
          else None)"





section \<open>An example directory\<close>

definition example_clock :: "nat \<Rightarrow> datetime" where
  "example_clock n =
     \<lparr>year = 2025, month = 9, day = 1, hour = 12, minute = 0, second = n, microsecond = 0\<rparr>"

text \<open>
  Four input files: a good table, an empty file, a file that cannot be parsed, and a
  table without the column \<open>phone\<close>.
\<close>

definition example_inputs :: "string \<Rightarrow> input_file option" where
  "example_inputs =
     [''in/data_file_1.csv'' \<mapsto> \<lparr>fsize = 200, parsed = Inr example_df\<rparr>,
      ''in/data_file_2.csv'' \<mapsto> \<lparr>fsize = 0, parsed = Inl ReadError\<rparr>,
      ''in/data_file_3.csv'' \<mapsto> \<lparr>fsize = 7, parsed = Inl ReadError\<rparr>,
      ''in/data_file_4.csv'' \<mapsto>
         \<lparr>fsize = 30, parsed = Inr \<lparr>columns = [''name'', ''location''], rows = []\<rparr>\<rparr>]"

definition example_world :: world where
  "example_world =
     \<lparr>ledger = None, inputs = example_inputs, outputs = Map.empty, dirs = {}, logged = [],
      trace = [], clock = example_clock, ticks = 0\<rparr>"

section \<open>Descriptive-field cleaning\<close>

lemma clean_descriptive_field_null: "clean_descriptive_field Null = Null"
  by (simp add: clean_descriptive_field_def isna_def)

lemma clean_descriptive_field_keeps:
  "text \<noteq> Null \<Longrightarrow>
   clean_descriptive_field text =
     Str (filter (\<lambda>c. char_isalnum c \<or> c = CHR ''_'' \<or> char_isspace c \<or> c = CHR '','') (py_str text))"
  by (simp add: clean_descriptive_field_def isna_def re_word_def re_space_def disj_ac)

text \<open>
  C5. The claim: a non-null address or reviews_list loses exactly the characters that are
  not alphanumeric, a space or a comma. The comment above the substitution says the same
  ("Remove non-alphanumeric characters, except for spaces and commas"). The class the code
  uses is \<open>[^\w\s,]\<close>, and \<open>\w\<close> holds the underscore, \<open>\s\<close> every white-space
  character: on \<open>a_b\<close> followed by a tab and \<open>c!\<close> only the exclamation mark goes, the
  underscore and the tab stay.
\<close>

theorem clean_descriptive_field_keeps_underscore_and_tab:
  "clean_descriptive_field (Str [CHR ''a'', CHR ''_'', CHR ''b'', CHR 0x09, CHR ''c'', CHR ''!''])
     = Str [CHR ''a'', CHR ''_'', CHR ''b'', CHR 0x09, CHR ''c'']
   \<and> \<not> char_isalnum CHR ''_'' \<and> CHR ''_'' \<noteq> CHR '' '' \<and> CHR ''_'' \<noteq> CHR '',''
   \<and> \<not> char_isalnum (CHR 0x09) \<and> CHR 0x09 \<noteq> CHR '' '' \<and> CHR 0x09 \<noteq> CHR '',''"
  by code_simp

section \<open>The module, row by row\<close>

lemma map2_of_map: "map2 f (map g xs) xs = map (\<lambda>x. f (g x) x) xs"
  by (induction xs) auto

lemma rows_setitem: "rows (setitem df c f) = map (\<lambda>r. r(c := f r)) (rows df)"
  by (simp add: setitem_def)

lemma columns_setitem: "set (columns (setitem df c f)) = insert c (set (columns df))"
  by (auto simp: setitem_def)

lemma columns_loc_set: "columns (loc_set df m c v) = columns df"
  by (simp add: loc_set_def)

lemma columns_loc_add: "columns (loc_add df m c s) = columns df"
  by (simp add: loc_add_def)

lemma rows_drop_column: "rows (drop_column df c) = rows df"
  by (simp add: drop_column_def)

lemma columns_drop_column: "set (columns (drop_column df c)) = set (columns df) - {c}"
  by (auto simp: drop_column_def)

lemma rows_init_columns: "rows (init_columns df) = map init_step (rows df)"
  by (simp add: init_columns_def Let_def rows_setitem init_step_def)

lemma columns_init_columns:
  "set (columns (init_columns df)) = insert ''issue_type'' (insert ''is_bad'' (set (columns df)))"
  by (simp add: init_columns_def Let_def columns_setitem)

lemma phone_rule_rows:
  assumes "''phone'' \<in> set (columns df)"
  shows "\<exists>df'. phone_rule df = Inr df' \<and> rows df' = map phone_step (rows df) \<and>
               set (columns df') = set (columns df) - {''phone_cleaned''}"
proof -
  define d2 where "d2 = setitem df ''phone_cleaned'' (\<lambda>r. clean_and_validate_phone (r ''phone''))"
  define m where "m = map (\<lambda>r. r ''phone_cleaned'' = Str ''invalid'') (rows d2)"
  define d3 where "d3 = drop_column (setitem (loc_add (loc_set d2 m ''is_bad'' (Bool True)) m
      ''issue_type'' ''invalid_phone;'') ''phone'' (\<lambda>r. r ''phone_cleaned'')) ''phone_cleaned''"
  have p: "phone_rule df = Inr d3"
    using assms by (simp add: phone_rule_def Let_def d3_def m_def d2_def)
  have c: "set (columns d3) = set (columns df) - {''phone_cleaned''}"
    using assms
    by (auto simp: d3_def d2_def columns_drop_column columns_setitem columns_loc_add columns_loc_set)
  have r: "rows d3 = map phone_step (rows df)"
    unfolding d3_def m_def d2_def
    by (simp add: rows_drop_column rows_setitem loc_add_def loc_set_def map2_of_map zip_map1 zip_map2
        zip_same_conv_map phone_step_def Let_def cong: if_cong)
  from p c r show ?thesis by simp
qed

lemma phone_rule_missing:
  "''phone'' \<notin> set (columns df) \<Longrightarrow> phone_rule df = Inl (KeyError ''phone'')"
  by (simp add: phone_rule_def)

lemma null_checks_rows:
  "set fs \<subseteq> set (columns df) \<Longrightarrow>
   \<exists>df'. null_checks df fs = Inr df' \<and> columns df' = columns df \<and>
         rows df' = map (fold null_step fs) (rows df)"
proof (induction fs arbitrary: df)
  case Nil
  then show ?case by simp
next
  case (Cons f fs)
  define d where "d = loc_add (loc_set df (map (\<lambda>r. isna (r f)) (rows df)) ''is_bad'' (Bool True))
              (map (\<lambda>r. isna (r f)) (rows df)) ''issue_type'' (''null_'' @ f @ '';'')"
  have c: "columns d = columns df" by (simp add: d_def columns_loc_add columns_loc_set)
  have r: "rows d = map (null_step f) (rows df)"
    unfolding d_def loc_add_def loc_set_def
    by (simp add: map2_of_map null_step_def zip_map1 zip_map2 zip_same_conv_map cong: if_cong)
  have n: "null_checks df (f # fs) = null_checks d fs"
    using Cons.prems by (simp add: Let_def d_def)
  from Cons.prems have "set fs \<subseteq> set (columns d)" by (simp add: c)
  from Cons.IH[OF this] obtain df' where
    "null_checks d fs = Inr df'" "columns df' = columns d" "rows df' = map (fold null_step fs) (rows d)"
    by blast
  then show ?case unfolding n by (simp add: c r)
qed

lemma null_checks_missing:
  "\<not> set fs \<subseteq> set (columns df) \<Longrightarrow>
   \<exists>c \<in> set fs. c \<notin> set (columns df) \<and> null_checks df fs = Inl (KeyError c)"
proof (induction fs arbitrary: df)
  case Nil
  then show ?case by simp
next
  case (Cons f fs)
  show ?case
  proof (cases "f \<in> set (columns df)")
    case False
    then show ?thesis by simp
  next
    case True
    define d where "d = loc_add (loc_set df (map (\<lambda>r. isna (r f)) (rows df)) ''is_bad'' (Bool True))
              (map (\<lambda>r. isna (r f)) (rows df)) ''issue_type'' (''null_'' @ f @ '';'')"
    have c: "columns d = columns df" by (simp add: d_def columns_loc_add columns_loc_set)
    have n: "null_checks df (f # fs) = null_checks d fs"
      using True by (simp add: Let_def d_def)
    from Cons.prems True have "\<not> set fs \<subseteq> set (columns d)" by (simp add: c)
    from Cons.IH[OF this] obtain x where
      "x \<in> set fs" "x \<notin> set (columns d)" "null_checks d fs = Inl (KeyError x)"
      by blast
    then show ?thesis unfolding n by (auto simp: c)
  qed
qed

lemma descriptive_rule_rows:
  "''address'' \<in> set (columns df) \<Longrightarrow> ''reviews_list'' \<in> set (columns df) \<Longrightarrow>
   \<exists>df'. descriptive_rule df = Inr df' \<and> rows df' = map clean_step (rows df) \<and>
         set (columns df') = set (columns df)"
  by (auto simp: descriptive_rule_def Let_def columns_setitem rows_setitem clean_step_def)

lemma descriptive_rule_missing:
  "''address'' \<notin> set (columns df) \<or> ''reviews_list'' \<notin> set (columns df) \<Longrightarrow>
   \<exists>c \<in> {''address'', ''reviews_list''}.
      c \<notin> set (columns df) \<and> descriptive_rule df = Inl (KeyError c)"
  by (auto simp: descriptive_rule_def Let_def columns_setitem)

lemma init_step_at:
  "init_step r ''is_bad'' = Bool False"
  "init_step r ''issue_type'' = Str []"
  "x \<noteq> ''is_bad'' \<Longrightarrow> x \<noteq> ''issue_type'' \<Longrightarrow> init_step r x = r x"
  by (simp_all add: init_step_def)

lemma null_step_other:
  "x \<noteq> ''is_bad'' \<Longrightarrow> x \<noteq> ''issue_type'' \<Longrightarrow> null_step f r x = r x"
  by (simp add: null_step_def)

lemma null_step_is_bad:
  "null_step f r ''is_bad'' = (if isna (r f) then Bool True else r ''is_bad'')"
  by (simp add: null_step_def)

lemma null_step_issue_type:
  "null_step f r ''issue_type'' =
     (if isna (r f) then cell_concat (r ''issue_type'') (''null_'' @ f @ '';'') else r ''issue_type'')"
  by (simp add: null_step_def)

lemma phone_step_is_bad:
  "phone_step r ''is_bad'' =
     (if clean_and_validate_phone (r ''phone'') = Str ''invalid'' then Bool True else r ''is_bad'')"
  by (simp add: phone_step_def Let_def)

lemma phone_step_issue_type:
  "phone_step r ''issue_type'' =
     (if clean_and_validate_phone (r ''phone'') = Str ''invalid''
      then cell_concat (r ''issue_type'') ''invalid_phone;'' else r ''issue_type'')"
  by (simp add: phone_step_def Let_def)

lemma phone_step_phone:
  "phone_step r ''phone'' = clean_and_validate_phone (r ''phone'')"
  "phone_step r ''phone_cleaned'' = clean_and_validate_phone (r ''phone'')"
  by (simp_all add: phone_step_def Let_def)

lemma phone_step_other:
  "x \<noteq> ''is_bad'' \<Longrightarrow> x \<noteq> ''issue_type'' \<Longrightarrow> x \<noteq> ''phone_cleaned'' \<Longrightarrow> x \<noteq> ''phone'' \<Longrightarrow>
   phone_step r x = r x"
  by (simp add: phone_step_def Let_def)

lemma clean_step_at:
  "clean_step r ''address'' = clean_descriptive_field (r ''address'')"
  "clean_step r ''reviews_list'' = clean_descriptive_field (r ''reviews_list'')"
  "x \<noteq> ''address'' \<Longrightarrow> x \<noteq> ''reviews_list'' \<Longrightarrow> clean_step r x = r x"
  by (simp_all add: clean_step_def Let_def)

lemmas step_at = init_step_at null_step_other null_step_is_bad null_step_issue_type
  phone_step_is_bad phone_step_issue_type phone_step_phone phone_step_other clean_step_at

lemma steps_annotate:
  "clean_step (fold null_step required_fields (phone_step (init_step r))) = annotate_row r"
proof (rule ext)
  fix x
  consider "x = ''is_bad''" | "x = ''issue_type''" | "x = ''phone_cleaned''" | "x = ''phone''"
    | "x = ''address''" | "x = ''reviews_list''"
    | "x \<noteq> ''is_bad'' \<and> x \<noteq> ''issue_type'' \<and> x \<noteq> ''phone_cleaned'' \<and> x \<noteq> ''phone'' \<and>
       x \<noteq> ''address'' \<and> x \<noteq> ''reviews_list''"
    by blast
  then show "clean_step (fold null_step required_fields (phone_step (init_step r))) x = annotate_row r x"
  proof cases
    case 1 then show ?thesis
      by (simp add: step_at required_fields_def annotate_row_def issue_tags_def Let_def isna_def)
  next
    case 2 then show ?thesis
      by (simp add: step_at required_fields_def annotate_row_def issue_tags_def Let_def isna_def)
  next
    case 3 then show ?thesis by (simp add: step_at required_fields_def annotate_row_def)
  next
    case 4 then show ?thesis by (simp add: step_at required_fields_def annotate_row_def)
  next
    case 5 then show ?thesis by (simp add: step_at required_fields_def annotate_row_def)
  next
    case 6 then show ?thesis by (simp add: step_at required_fields_def annotate_row_def)
  next
    case 7 then show ?thesis by (simp add: step_at required_fields_def annotate_row_def)
  qed
qed

lemma module_rows:
  assumes "has_columns df"
  shows "\<exists>df'. data_quality_check_module df = Inr df' \<and> rows df' = map annotate_row (rows df)"
proof -
  from assms have "''phone'' \<in> set (columns (init_columns df))"
    by (simp add: columns_init_columns has_columns_def)
  from phone_rule_rows[OF this] obtain d1 where
    d1: "phone_rule (init_columns df) = Inr d1" "rows d1 = map phone_step (rows (init_columns df))"
        "set (columns d1) = set (columns (init_columns df)) - {''phone_cleaned''}"
    by blast
  have "set required_fields \<subseteq> set (columns d1)"
    using assms by (auto simp: d1 columns_init_columns has_columns_def required_fields_def)
  from null_checks_rows[OF this] obtain d2 where
    d2: "null_checks d1 required_fields = Inr d2" "columns d2 = columns d1"
        "rows d2 = map (fold null_step required_fields) (rows d1)"
    by blast
  have "''address'' \<in> set (columns d2)" "''reviews_list'' \<in> set (columns d2)"
    using assms by (auto simp: d2 d1 columns_init_columns has_columns_def)
  from descriptive_rule_rows[OF this] obtain d3 where
    d3: "descriptive_rule d2 = Inr d3" "rows d3 = map clean_step (rows d2)"
    by blast
  have "data_quality_check_module df = Inr d3"
    by (simp add: data_quality_check_module_def d1 d2 d3)
  moreover have "rows d3 = map annotate_row (rows df)"
    by (simp add: d3 d2 d1 rows_init_columns steps_annotate)
  ultimately show ?thesis by simp
qed

lemma module_missing:
  assumes "\<not> has_columns df"
  shows "\<exists>c. data_quality_check_module df = Inl (KeyError c) \<and> c \<notin> set (columns df) \<and>
             c \<in> {''phone'', ''name'', ''location'', ''address'', ''reviews_list''}"
proof (cases "''phone'' \<in> set (columns df)")
  case False
  then have "phone_rule (init_columns df) = Inl (KeyError ''phone'')"
    by (simp add: phone_rule_missing columns_init_columns)
  with False show ?thesis by (simp add: data_quality_check_module_def)
next
  case True
  then have "''phone'' \<in> set (columns (init_columns df))"
    by (simp add: columns_init_columns)
  from phone_rule_rows[OF this] obtain d1 where
    d1: "phone_rule (init_columns df) = Inr d1"
        "set (columns d1) = set (columns (init_columns df)) - {''phone_cleaned''}"
    by blast
  show ?thesis
  proof (cases "set required_fields \<subseteq> set (columns d1)")
    case False
    from null_checks_missing[OF this] obtain c where
      c: "c \<in> set required_fields" "c \<notin> set (columns d1)" "null_checks d1 required_fields = Inl (KeyError c)"
      by blast
    from c(1,2) have "c \<notin> set (columns df)"
      by (auto simp: d1 columns_init_columns required_fields_def)
    with c show ?thesis
      by (auto simp: data_quality_check_module_def d1 required_fields_def)
  next
    case req: True
    from null_checks_rows[OF this] obtain d2 where
      d2: "null_checks d1 required_fields = Inr d2" "columns d2 = columns d1"
      by blast
    from req assms True have "''address'' \<notin> set (columns d2) \<or> ''reviews_list'' \<notin> set (columns d2)"
      by (auto simp: d2 d1 columns_init_columns has_columns_def required_fields_def)
    from descriptive_rule_missing[OF this] obtain c where
      c: "c = ''address'' \<or> c = ''reviews_list''" "c \<notin> set (columns d2)"
         "descriptive_rule d2 = Inl (KeyError c)"
      by blast
    from c(1,2) have "c \<notin> set (columns df)"
      by (auto simp: d2 d1 columns_init_columns)
    with c show ?thesis
      by (auto simp: data_quality_check_module_def d1 d2)
  qed
qed

section \<open>Flags and tags\<close>

lemma module_row:
  assumes "data_quality_check_module df = Inr df'"
  shows "rows df' = map annotate_row (rows df)"
proof -
  have "has_columns df"
  proof (rule ccontr)
    assume "\<not> has_columns df"
    from module_missing[OF this] assms show False by auto
  qed
  from module_rows[OF this] assms show ?thesis by auto
qed

lemma annotate_row_at:
  "annotate_row r ''is_bad'' = Bool (issue_tags r \<noteq> [])"
  "annotate_row r ''issue_type'' = Str (issue_tags r)"
  "annotate_row r ''phone'' = clean_and_validate_phone (r ''phone'')"
  "annotate_row r ''address'' = clean_descriptive_field (r ''address'')"
  "annotate_row r ''reviews_list'' = clean_descriptive_field (r ''reviews_list'')"
  by (simp_all add: annotate_row_def)

lemma tags_without_invalid_phone:
  "clean_and_validate_phone (r ''phone'') \<noteq> Str ''invalid'' \<Longrightarrow>
   \<not> contains (issue_tags r) ''invalid_phone;''"
  by (simp add: issue_tags_def Let_def)

lemma tags_without_null_phone:
  "clean_and_validate_phone (r ''phone'') \<noteq> Null \<Longrightarrow>
   \<not> contains (issue_tags r) ''null_phone;''"
  by (simp add: issue_tags_def Let_def isna_def)

lemma tags_with_invalid_phone:
  "clean_and_validate_phone (r ''phone'') = Str ''invalid'' \<Longrightarrow>
   \<exists>s. issue_tags r = ''invalid_phone;'' @ s"
  by (simp add: issue_tags_def Let_def isna_def)

lemma tags_with_null_phone:
  "clean_and_validate_phone (r ''phone'') = Null \<Longrightarrow>
   contains (issue_tags r) ''null_phone;''"
  by (simp add: issue_tags_def Let_def isna_def)

lemma tags_contain_invalid_phone:
  "clean_and_validate_phone (r ''phone'') = Str ''invalid'' \<Longrightarrow>
   contains (issue_tags r) ''invalid_phone;''"
  by (simp add: issue_tags_def Let_def isna_def)

lemma phone_cases:
  "phone \<noteq> Null \<Longrightarrow>
   clean_and_validate_phone phone =
     (if length (normalized_phone phone) = 10 \<and> list_all char_isdigit (normalized_phone phone)
      then Str (normalized_phone phone) else Str ''invalid'')"
  by (auto simp: clean_and_validate_phone_def normalized_phone_def isna_def Let_def isdigit_def)

lemma valid_phone_not_sentinel:
  "length p = 10 \<Longrightarrow> Str p \<noteq> Str ''invalid''"
  by auto


lemma example_module:
  "\<exists>df'. data_quality_check_module example_df = Inr df'"
  using module_rows[of example_df] by (auto simp: has_columns_def example_df_def)

lemma example_phones:
  "normalized_phone (Str ''555 123 4567'') = ''5551234567''"
  "normalized_phone (Str ''12345'') = ''12345''"
  by (simp_all add: normalized_phone_def remove_char_def)

lemma example_clean:
  "clean_and_validate_phone (Str ''555 123 4567'') = Str ''5551234567''"
  "clean_and_validate_phone (Str ''12345'') = Str ''invalid''"
  "clean_and_validate_phone Null = Null"
  by (simp_all add: clean_and_validate_phone_def isna_def remove_char_def isdigit_def
      char_isdigit_def code_point_def)

lemma example_tags:
  "issue_tags example_row_ok = []"
  "issue_tags example_row_bad_phone = ''invalid_phone;''"
  "issue_tags example_row_no_phone = ''null_phone;''"
  by (simp_all add: issue_tags_def example_row_ok_def example_row_bad_phone_def
      example_row_no_phone_def example_clean isna_def)

text \<open>
  C1. For every input table and every row of the table the module returns, \<open>is_bad\<close> is
  true if and only if \<open>issue_type\<close> is a non-empty string.
\<close>

theorem is_bad_iff_issue_type_nonempty:
  assumes "data_quality_check_module df = Inr df'" and "r \<in> set (rows df')"
  shows "\<exists>b s. r ''is_bad'' = Bool b \<and> r ''issue_type'' = Str s \<and> b = (s \<noteq> [])"
proof -
  from assms obtain r0 where "r = annotate_row r0"
    by (auto simp: module_row)
  then show ?thesis by (simp add: annotate_row_at)
qed

theorem is_bad_iff_issue_type_nonempty_witness:
  "\<exists>df' r b s. data_quality_check_module example_df = Inr df' \<and> r \<in> set (rows df') \<and>
     r ''is_bad'' = Bool b \<and> r ''issue_type'' = Str s \<and> b = (s \<noteq> []) \<and> s = ''invalid_phone;''"
proof -
  from example_module obtain df' where m: "data_quality_check_module example_df = Inr df'" ..
  define r where "r = annotate_row example_row_bad_phone"
  have r: "r \<in> set (rows df')"
    by (simp add: module_row[OF m] example_df_def r_def)
  from is_bad_iff_issue_type_nonempty[OF m r] obtain b s where
    "r ''is_bad'' = Bool b" "r ''issue_type'' = Str s" "b = (s \<noteq> [])"
    by blast
  moreover from this have "s = ''invalid_phone;''"
    by (simp add: r_def annotate_row_at example_tags)
  ultimately show ?thesis using m r by blast
qed

section \<open>The phone rule\<close>

text \<open>
  C2. The claim: a non-null phone, with \<open>+\<close> and spaces removed, is kept as the cleaned
  value iff it is exactly 10 characters long and every character is a decimal digit;
  otherwise the cleaned value is the sentinel \<open>invalid\<close> and the row is flagged. The code
  sets out to check this (its comment: "validated for correct phone numbers") but tests
  \<open>phone.isdigit()\<close>, which also accepts digits that are not decimal. The string of
  ten superscript twos is ten characters long and none of them is a decimal digit, yet
  the phone rule keeps it as a valid phone and does not return the sentinel.
\<close>

theorem superscript_digits_pass_phone_rule:
  "clean_and_validate_phone (Str superscript_twos) = Str (normalized_phone (Str superscript_twos))
   \<and> clean_and_validate_phone (Str superscript_twos) \<noteq> Str ''invalid''
   \<and> \<not> (length (normalized_phone (Str superscript_twos)) = 10
        \<and> list_all char_isdecimal (normalized_phone (Str superscript_twos)))"
  by code_simp

text \<open>
  What the phone rule computes on every row with a non-null phone: \<open>+\<close> and spaces are
  removed; the result is kept as the cleaned phone iff it is exactly 10 characters long
  and \<open>str.isdigit\<close> holds of every character, and then the row carries no
  \<open>invalid_phone;\<close> tag and is bad only when name or location is missing; otherwise the
  cleaned phone is the sentinel \<open>invalid\<close>, \<open>is_bad\<close> is true and \<open>issue_type\<close> starts
  with \<open>invalid_phone;\<close>. Among ASCII characters the digits of \<open>str.isdigit\<close> are
  the decimal digits.
\<close>

lemma phone_rule_keeps_ten_digits:
  assumes "data_quality_check_module df = Inr df'"
    and "i < length (rows df)"
    and "(rows df ! i) ''phone'' \<noteq> Null"
  shows "\<exists>s. (rows df' ! i) ''issue_type'' = Str s \<and>
     (if length (normalized_phone ((rows df ! i) ''phone'')) = 10
         \<and> list_all char_isdigit (normalized_phone ((rows df ! i) ''phone''))
      then (rows df' ! i) ''phone'' = Str (normalized_phone ((rows df ! i) ''phone''))
         \<and> \<not> contains s ''invalid_phone;''
         \<and> (rows df' ! i) ''is_bad'' =
             Bool (isna ((rows df ! i) ''name'') \<or> isna ((rows df ! i) ''location''))
      else (rows df' ! i) ''phone'' = Str ''invalid''
         \<and> (rows df' ! i) ''is_bad'' = Bool True
         \<and> take 14 s = ''invalid_phone;'')"
proof -
  define r where "r = rows df ! i"
  define p where "p = normalized_phone (r ''phone'')"
  have r': "rows df' ! i = annotate_row r"
    using assms(2) by (simp add: module_row[OF assms(1)] r_def)
  have c: "clean_and_validate_phone (r ''phone'') =
      (if length p = 10 \<and> list_all char_isdigit p then Str p else Str ''invalid'')"
    using assms(3) by (simp add: phone_cases r_def p_def)
  show ?thesis
  proof (cases "length p = 10 \<and> list_all char_isdigit p")
    case True
    with c have k: "clean_and_validate_phone (r ''phone'') = Str p" by simp
    from True have ne: "clean_and_validate_phone (r ''phone'') \<noteq> Str ''invalid''"
      unfolding k by auto
    have b: "(issue_tags r \<noteq> []) = (isna (r ''name'') \<or> isna (r ''location''))"
      using ne by (simp add: issue_tags_def Let_def k isna_def)
    from True show ?thesis
      unfolding r_def[symmetric] p_def[symmetric] r'
      using tags_without_invalid_phone[of r] ne by (simp add: annotate_row_at k b)
  next
    case False
    with c have k: "clean_and_validate_phone (r ''phone'') = Str ''invalid''" by simp
    from tags_with_invalid_phone[of r] k obtain t where t: "issue_tags r = ''invalid_phone;'' @ t"
      by blast
    from False show ?thesis
      unfolding r_def[symmetric] p_def[symmetric] r'
      by (simp add: annotate_row_at k t)
  qed
qed

lemma phone_rule_on_examples:
  "\<exists>df'. data_quality_check_module example_df = Inr df'
     \<and> (rows df' ! 0) ''phone'' = Str ''5551234567'' \<and> (rows df' ! 0) ''is_bad'' = Bool False
     \<and> (rows df' ! 0) ''issue_type'' = Str []
     \<and> (rows df' ! 1) ''phone'' = Str ''invalid'' \<and> (rows df' ! 1) ''is_bad'' = Bool True
     \<and> (rows df' ! 1) ''issue_type'' = Str ''invalid_phone;''"
proof -
  from example_module obtain df' where m: "data_quality_check_module example_df = Inr df'" ..
  have d: "char_isdigit CHR ''1''" "char_isdigit CHR ''2''" "char_isdigit CHR ''3''"
    "char_isdigit CHR ''4''" "char_isdigit CHR ''5''" "char_isdigit CHR ''6''" "char_isdigit CHR ''7''"
    by (simp_all add: char_isdigit_def code_point_def)
  have t: "(rows df' ! 0) ''issue_type'' = Str []" "(rows df' ! 1) ''issue_type'' = Str ''invalid_phone;''"
    by (simp_all add: module_row[OF m] example_df_def annotate_row_at example_tags)
  have "(rows df' ! 0) ''phone'' = Str ''5551234567'' \<and> (rows df' ! 0) ''is_bad'' = Bool False"
    using phone_rule_keeps_ten_digits[OF m, of 0]
    by (auto simp: t example_df_def example_row_ok_def example_phones d isna_def)
  moreover
  have "(rows df' ! 1) ''phone'' = Str ''invalid'' \<and> (rows df' ! 1) ''is_bad'' = Bool True"
    using phone_rule_keeps_ten_digits[OF m, of 1]
    by (auto simp: t example_df_def example_row_ok_def example_row_bad_phone_def example_phones)
  ultimately show ?thesis using m t by blast
qed

text \<open>
  C3. The null check on \<open>phone\<close> sees the cleaned phone. A malformed, non-null phone gives
  the tag \<open>invalid_phone;\<close> and never \<open>null_phone;\<close>; a missing phone gives
  \<open>null_phone;\<close> and never \<open>invalid_phone;\<close>.
\<close>

theorem malformed_and_missing_phone_tags:
  assumes "data_quality_check_module df = Inr df'"
    and "i < length (rows df)"
  shows "\<exists>s. (rows df' ! i) ''issue_type'' = Str s \<and>
     (if (rows df ! i) ''phone'' = Null
      then contains s ''null_phone;'' \<and> \<not> contains s ''invalid_phone;''
      else if length (normalized_phone ((rows df ! i) ''phone'')) = 10
              \<and> list_all char_isdigit (normalized_phone ((rows df ! i) ''phone''))
      then \<not> contains s ''null_phone;'' \<and> \<not> contains s ''invalid_phone;''
      else contains s ''invalid_phone;'' \<and> \<not> contains s ''null_phone;'')"
proof -
  define r where "r = rows df ! i"
  define p where "p = normalized_phone (r ''phone'')"
  have r': "rows df' ! i = annotate_row r"
    using assms(2) by (simp add: module_row[OF assms(1)] r_def)
  show ?thesis
  proof (cases "r ''phone'' = Null")
    case True
    then have k: "clean_and_validate_phone (r ''phone'') = Null"
      by (simp add: clean_and_validate_phone_def isna_def)
    then have "clean_and_validate_phone (r ''phone'') \<noteq> Str ''invalid''" by simp
    with tags_without_invalid_phone[of r] tags_with_null_phone[of r] k True
    show ?thesis
      unfolding r_def[symmetric] r' by (simp add: annotate_row_at)
  next
    case False
    then have c: "clean_and_validate_phone (r ''phone'') =
        (if length p = 10 \<and> list_all char_isdigit p then Str p else Str ''invalid'')"
      by (simp add: phone_cases p_def)
    show ?thesis
    proof (cases "length p = 10 \<and> list_all char_isdigit p")
      case True
      with c have k: "clean_and_validate_phone (r ''phone'') = Str p" by simp
      from True have "clean_and_validate_phone (r ''phone'') \<noteq> Str ''invalid''"
        unfolding k by auto
      moreover have "clean_and_validate_phone (r ''phone'') \<noteq> Null" by (simp add: k)
      ultimately show ?thesis
        using True False tags_without_invalid_phone[of r] tags_without_null_phone[of r]
        unfolding r_def[symmetric] p_def[symmetric] r' by (simp add: annotate_row_at)
    next
      case nv: False
      with c have k: "clean_and_validate_phone (r ''phone'') = Str ''invalid''" by simp
      then have "clean_and_validate_phone (r ''phone'') \<noteq> Null" by simp
      with tags_without_null_phone[of r] tags_contain_invalid_phone[of r] k nv False
      show ?thesis
        unfolding r_def[symmetric] p_def[symmetric] r' by (simp add: annotate_row_at)
    qed
  qed
qed

theorem malformed_and_missing_phone_tags_witness:
  "\<exists>df'. data_quality_check_module example_df = Inr df'
     \<and> (rows df' ! 1) ''issue_type'' = Str ''invalid_phone;''
     \<and> contains ''invalid_phone;'' ''invalid_phone;'' \<and> \<not> contains ''invalid_phone;'' ''null_phone;''
     \<and> (rows df' ! 2) ''issue_type'' = Str ''null_phone;''
     \<and> contains ''null_phone;'' ''null_phone;'' \<and> \<not> contains ''null_phone;'' ''invalid_phone;''"
proof -
  from example_module obtain df' where m: "data_quality_check_module example_df = Inr df'" ..
  have t: "(rows df' ! 1) ''issue_type'' = Str ''invalid_phone;''"
    "(rows df' ! 2) ''issue_type'' = Str ''null_phone;''"
    by (simp_all add: module_row[OF m] example_df_def annotate_row_at example_tags)
  have "contains ''invalid_phone;'' ''invalid_phone;'' \<and> \<not> contains ''invalid_phone;'' ''null_phone;''"
    using malformed_and_missing_phone_tags[OF m, of 1]
    by (auto simp: t example_df_def example_row_ok_def example_row_bad_phone_def example_phones)
  moreover
  have "contains ''null_phone;'' ''null_phone;'' \<and> \<not> contains ''null_phone;'' ''invalid_phone;''"
    using malformed_and_missing_phone_tags[OF m, of 2]
    by (auto simp: t example_df_def example_row_ok_def example_row_no_phone_def)
  ultimately show ?thesis using m t by blast
qed

text \<open>
  C4. For every row whose original phone is missing, the phone rule gives the phone no
  value: the cell stays null, which is distinct from the sentinel \<open>invalid\<close>. After the
  phone rule alone the row is not flagged: \<open>is_bad\<close> is false and \<open>issue_type\<close> is
  empty, so no \<open>invalid_phone;\<close> has been appended.
\<close>

theorem missing_phone_stays_missing:
  assumes "phone_rule (init_columns df) = Inr df'"
    and "i < length (rows df)"
    and "(rows df ! i) ''phone'' = Null"
  shows "(rows df' ! i) ''phone'' = Null \<and> (rows df' ! i) ''phone'' \<noteq> Str ''invalid''
     \<and> (rows df' ! i) ''is_bad'' = Bool False \<and> (rows df' ! i) ''issue_type'' = Str []"
proof -
  have "''phone'' \<in> set (columns (init_columns df))"
  proof (rule ccontr)
    assume "''phone'' \<notin> set (columns (init_columns df))"
    from phone_rule_missing[OF this] assms(1) show False by simp
  qed
  from phone_rule_rows[OF this] assms(1)
  have "rows df' = map phone_step (rows (init_columns df))" by auto
  with assms(2) have r: "rows df' ! i = phone_step (init_step (rows df ! i))"
    by (simp add: rows_init_columns)
  have k: "clean_and_validate_phone Null = Null"
    by (simp add: clean_and_validate_phone_def isna_def)
  show ?thesis
    unfolding r using assms(3) by (simp add: step_at k)
qed

theorem missing_phone_stays_missing_witness:
  "\<exists>df'. phone_rule (init_columns example_df) = Inr df'
     \<and> (rows df' ! 2) ''phone'' = Null \<and> (rows df' ! 2) ''phone'' \<noteq> Str ''invalid''
     \<and> (rows df' ! 2) ''is_bad'' = Bool False \<and> (rows df' ! 2) ''issue_type'' = Str []"
proof -
  have "''phone'' \<in> set (columns (init_columns example_df))"
    by (simp add: columns_init_columns example_df_def)
  from phone_rule_rows[OF this] obtain df' where
    m: "phone_rule (init_columns example_df) = Inr df'" by blast
  from missing_phone_stays_missing[OF m, of 2] m show ?thesis
    by (simp add: example_df_def example_row_no_phone_def)
qed

section \<open>One round of the loop\<close>

lemma quiet_refl: "quiet w w"
  by (simp add: quiet_def)

lemma quiet_logging: "quiet w (logging m w)"
  by (simp add: quiet_def logging_def)

lemma quiet_trans: "quiet a b \<Longrightarrow> quiet b c \<Longrightarrow> quiet a c"
  unfolding quiet_def by (cases a, cases b, cases c) simp

lemma quiet_fields:
  assumes "quiet w w'"
  shows "ledger w' = ledger w" "inputs w' = inputs w" "outputs w' = outputs w"
    "trace w' = trace w" "dirs w' = dirs w" "ticks w' = ticks w" "clock w' = clock w"
  using assms unfolding quiet_def by (cases w, cases w', simp)+

lemma load_quiet: "quiet w w' \<Longrightarrow> load_processed_files w' = load_processed_files w"
  by (simp add: load_processed_files_def quiet_fields)

lemma load_ledger_names: "load_processed_files w = set (ledger_names w)"
  by (simp add: load_processed_files_def ledger_names_def split: option.splits)

lemma logging_fields:
  "ledger (logging m w) = ledger w" "inputs (logging m w) = inputs w"
  "outputs (logging m w) = outputs w" "trace (logging m w) = trace w"
  "logged (logging m w) = logged w @ [m]"
  by (simp_all add: logging_def)

lemma ledger_names_save:
  "ledger_names (save_processed_files name w) = ledger_names w @ [name]"
  by (simp add: save_processed_files_def now_def ledger_names_def Let_def split: option.splits)

lemma save_fields:
  "inputs (save_processed_files name w) = inputs w"
  "outputs (save_processed_files name w) = outputs w"
  "trace (save_processed_files name w) = trace w @ [WriteLedger name]"
  "logged (save_processed_files name w) = logged w"
  by (simp_all add: save_processed_files_def now_def Let_def split: option.splits)

lemma write_fields:
  "inputs (write_output_files df out base w) = inputs w"
  "ledger (write_output_files df out base w) = ledger w"
  by (simp_all add: write_output_files_def now_def Let_def logging_def)

lemma ledger_names_write:
  "ledger_names (write_output_files df out base w) = ledger_names w"
  by (simp add: ledger_names_def write_fields)

lemma ledger_names_logging: "ledger_names (logging m w) = ledger_names w"
  by (simp add: ledger_names_def logging_fields)

text \<open>A file whose name is in the ledger is skipped, whatever else holds of it.\<close>

lemma loop_body_recorded:
  "basename p \<in> load_processed_files w \<Longrightarrow>
   loop_body out p w = (logging (Skipping (basename p) AlreadyProcessed) w, None)"
  by (simp add: loop_body_def file_check_module_def Let_def)

text \<open>A file that can be processed is written and then recorded.\<close>

lemma loop_body_processable:
  assumes "basename p \<notin> load_processed_files w" and "processable (inputs w) p"
  shows "\<exists>df0 df f. inputs w p = Some f \<and> parsed f = Inr df0 \<and>
           data_quality_check_module df0 = Inr df \<and>
           loop_body out p w =
             (save_processed_files (basename p)
                (write_output_files df out (fst (splitext (basename p)))
                   (logging (Processing (basename p)) w)), None)"
  using assms
  by (auto simp: loop_body_def file_check_module_def Let_def processable_def getsize_def
      read_csv_def logging_fields split: option.splits sum.splits)

text \<open>An exception leaves the loop and the files as they were.\<close>

lemma loop_body_raises:
  assumes "basename p \<notin> load_processed_files w" and "raises (inputs w) p = Some e"
  shows "\<exists>w'. loop_body out p w = (w', Some e) \<and> quiet w w'"
  using assms
  by (auto simp: loop_body_def file_check_module_def Let_def raises_def getsize_def
      read_csv_def logging_fields quiet_refl quiet_logging split: option.splits sum.splits if_splits)

text \<open>Every other file is passed over: only the log grows.\<close>

lemma loop_body_passed_over:
  assumes "basename p \<notin> load_processed_files w" and "\<not> processable (inputs w) p"
    and "raises (inputs w) p = None"
  shows "\<exists>w'. loop_body out p w = (w', None) \<and> quiet w w'"
  using assms
  by (auto simp: loop_body_def file_check_module_def Let_def raises_def processable_def getsize_def
      read_csv_def logging_fields quiet_refl quiet_logging
      intro: quiet_trans[OF quiet_logging quiet_logging]
      split: option.splits sum.splits if_splits)

section \<open>The whole run\<close>

lemma processable_not_raises: "processable inp p \<Longrightarrow> raises inp p = None"
  by (auto simp: processable_def raises_def split: option.splits sum.splits)

lemma load_after_processing:
  "load_processed_files (save_processed_files name (write_output_files df out base (logging m w)))
     = insert name (load_processed_files w)"
  by (simp add: load_ledger_names ledger_names_save ledger_names_write ledger_names_logging)

lemma inputs_after_processing:
  "inputs (save_processed_files name (write_output_files df out base (logging m w))) = inputs w"
  by (simp add: save_fields write_fields logging_fields)

text \<open>A round of the loop never changes the input files and never shrinks the ledger.\<close>

lemma loop_body_keeps:
  "inputs (fst (loop_body out p w)) = inputs w \<and>
   load_processed_files w \<subseteq> load_processed_files (fst (loop_body out p w))"
proof (cases "basename p \<in> load_processed_files w")
  case True
  then show ?thesis
    by (simp add: loop_body_recorded logging_fields load_quiet[OF quiet_logging])
next
  case False
  show ?thesis
  proof (cases "processable (inputs w) p")
    case True
    from loop_body_processable[OF False True, of out] show ?thesis
      by (auto simp: load_after_processing inputs_after_processing)
  next
    case np: False
    show ?thesis
    proof (cases "raises (inputs w) p")
      case None
      from loop_body_passed_over[OF False np None, of out] show ?thesis
        by (auto simp: quiet_fields load_quiet)
    next
      case (Some e)
      from loop_body_raises[OF False Some, of out] show ?thesis
        by (auto simp: quiet_fields load_quiet)
    qed
  qed
qed

lemma main_loop_keeps:
  "inputs (fst (main_loop out ps w)) = inputs w \<and>
   load_processed_files w \<subseteq> load_processed_files (fst (main_loop out ps w))"
proof (induction ps arbitrary: w)
  case Nil
  then show ?case by simp
next
  case (Cons p ps)
  obtain w1 r where b: "loop_body out p w = (w1, r)" by (cases "loop_body out p w")
  from loop_body_keeps[of out p w] b
  have k: "inputs w1 = inputs w" "load_processed_files w \<subseteq> load_processed_files w1" by simp_all
  show ?case
  proof (cases r)
    case None
    with b have "main_loop out (p # ps) w = main_loop out ps w1" by simp
    with Cons.IH[of w1] k show ?thesis by auto
  next
    case (Some e)
    with b have "main_loop out (p # ps) w = (w1, Some e)" by simp
    with k show ?thesis by simp
  qed
qed

text \<open>
  A second pass over the same paths, from a state with the same input files whose ledger
  holds the names the first pass ends with: only the log grows, and the pass ends as the
  first did.
\<close>

lemma second_pass:
  assumes "inputs v = inputs w"
    and "load_processed_files v = load_processed_files (fst (main_loop out ps w))"
  shows "quiet v (fst (main_loop out ps v)) \<and> snd (main_loop out ps v) = snd (main_loop out ps w)"
  using assms
proof (induction ps arbitrary: w v)
  case Nil
  then show ?case by (simp add: quiet_refl)
next
  case (Cons p ps)
  let ?n = "basename p"
  let ?skip = "logging (Skipping ?n AlreadyProcessed) v"
  have skip_v: "?n \<in> load_processed_files v \<Longrightarrow>
      main_loop out (p # ps) v = main_loop out ps ?skip"
    by (simp add: loop_body_recorded)
  have grow: "load_processed_files w \<subseteq> load_processed_files v"
    using main_loop_keeps[of out "p # ps" w] Cons.prems(2) by simp
  consider (recorded) "?n \<in> load_processed_files w"
    | (processed) "?n \<notin> load_processed_files w" "processable (inputs w) p"
    | (raised) e where "?n \<notin> load_processed_files w" "raises (inputs w) p = Some e"
    | (passed) "?n \<notin> load_processed_files w" "\<not> processable (inputs w) p" "raises (inputs w) p = None"
    by (cases "raises (inputs w) p") auto
  then show ?case
  proof cases
    case recorded
    let ?w1 = "logging (Skipping ?n AlreadyProcessed) w"
    have w: "main_loop out (p # ps) w = main_loop out ps ?w1"
      using recorded by (simp add: loop_body_recorded)
    from recorded grow have nv: "?n \<in> load_processed_files v" by auto
    have "inputs ?skip = inputs ?w1" using Cons.prems(1) by (simp add: logging_fields)
    moreover have "load_processed_files ?skip = load_processed_files (fst (main_loop out ps ?w1))"
      using Cons.prems(2)[unfolded w] by (simp add: load_quiet[OF quiet_logging])
    ultimately have "quiet ?skip (fst (main_loop out ps ?skip)) \<and>
        snd (main_loop out ps ?skip) = snd (main_loop out ps ?w1)"
      by (rule Cons.IH)
    then show ?thesis
      unfolding skip_v[OF nv] w by (auto intro: quiet_trans[OF quiet_logging])
  next
    case processed
    from loop_body_processable[OF processed, of out] obtain df where
      b: "loop_body out p w =
            (save_processed_files ?n (write_output_files df out (fst (splitext ?n))
               (logging (Processing ?n) w)), None)"
      by blast
    define w1 where "w1 = save_processed_files ?n (write_output_files df out (fst (splitext ?n))
               (logging (Processing ?n) w))"
    have w: "main_loop out (p # ps) w = main_loop out ps w1"
      by (simp add: b w1_def)
    have "?n \<in> load_processed_files w1" by (simp add: w1_def load_after_processing)
    with main_loop_keeps[of out ps w1] Cons.prems(2)[unfolded w]
    have nv: "?n \<in> load_processed_files v"
      by auto
    have "inputs ?skip = inputs w1"
      using Cons.prems(1) by (simp add: logging_fields w1_def inputs_after_processing)
    moreover have "load_processed_files ?skip = load_processed_files (fst (main_loop out ps w1))"
      using Cons.prems(2)[unfolded w] by (simp add: load_quiet[OF quiet_logging])
    ultimately have "quiet ?skip (fst (main_loop out ps ?skip)) \<and>
        snd (main_loop out ps ?skip) = snd (main_loop out ps w1)"
      by (rule Cons.IH)
    then show ?thesis
      unfolding skip_v[OF nv] w by (auto intro: quiet_trans[OF quiet_logging])
  next
    case raised
    from loop_body_raises[OF raised, of out] obtain w1 where
      b: "loop_body out p w = (w1, Some e)" "quiet w w1" by blast
    then have w: "main_loop out (p # ps) w = (w1, Some e)" by simp
    with Cons.prems(2)[unfolded w] b(2) have "load_processed_files v = load_processed_files w"
      by (simp add: load_quiet)
    with raised Cons.prems(1) have "?n \<notin> load_processed_files v" "raises (inputs v) p = Some e"
      by simp_all
    from loop_body_raises[OF this, of out] obtain v1 where
      "loop_body out p v = (v1, Some e)" "quiet v v1" by blast
    then have "main_loop out (p # ps) v = (v1, Some e)" "quiet v v1" by simp_all
    then show ?thesis unfolding w by simp
  next
    case passed
    from loop_body_passed_over[OF passed, of out] obtain w1 where
      b: "loop_body out p w = (w1, None)" "quiet w w1" by blast
    then have w: "main_loop out (p # ps) w = main_loop out ps w1" by simp
    have "\<exists>v1. loop_body out p v = (v1, None) \<and> quiet v v1"
    proof (cases "?n \<in> load_processed_files v")
      case True
      then show ?thesis by (simp add: loop_body_recorded quiet_logging)
    next
      case False
      with passed Cons.prems(1) loop_body_passed_over[of p v out] show ?thesis by simp
    qed
    then obtain v1 where v1: "loop_body out p v = (v1, None)" "quiet v v1" by blast
    then have v: "main_loop out (p # ps) v = main_loop out ps v1" by simp
    have "inputs v1 = inputs w1"
      using Cons.prems(1) b(2) v1(2) by (simp add: quiet_fields)
    moreover have "load_processed_files v1 = load_processed_files (fst (main_loop out ps w1))"
      using Cons.prems(2)[unfolded w] v1(2) by (simp add: load_quiet)
    ultimately have "quiet v1 (fst (main_loop out ps v1)) \<and>
        snd (main_loop out ps v1) = snd (main_loop out ps w1)"
      by (rule Cons.IH)
    then show ?thesis
      unfolding v w using v1(2) by (auto intro: quiet_trans)
  qed
qed

lemma main_fst:
  "quiet (fst (main_loop out ps w)) (fst (main ps out w))"
  by (cases "main_loop out ps w")
     (auto simp: main_def quiet_refl quiet_logging split: option.splits)

lemma main_snd: "snd (main ps out w) = snd (main_loop out ps w)"
  by (cases "main_loop out ps w") (auto simp: main_def split: option.splits)

section \<open>The admission gate\<close>

lemma example_basenames:
  "basename ''in/data_file_1.csv'' = ''data_file_1.csv''"
  "basename ''in/data_file_2.csv'' = ''data_file_2.csv''"
  "basename ''in/data_file_3.csv'' = ''data_file_3.csv''"
  "basename ''in/data_file_4.csv'' = ''data_file_4.csv''"
  by (simp_all add: basename_def rfind_def)

lemma example_endswith:
  "endswith ''in/data_file_1.csv'' ''.csv''"
  "endswith ''in/data_file_2.csv'' ''.csv''"
  "endswith ''in/data_file_3.csv'' ''.csv''"
  "endswith ''in/data_file_4.csv'' ''.csv''"
  by (simp_all add: endswith_def)

lemma example_inputs_at:
  "example_inputs ''in/data_file_1.csv'' = Some \<lparr>fsize = 200, parsed = Inr example_df\<rparr>"
  "example_inputs ''in/data_file_2.csv'' = Some \<lparr>fsize = 0, parsed = Inl ReadError\<rparr>"
  "example_inputs ''in/data_file_3.csv'' = Some \<lparr>fsize = 7, parsed = Inl ReadError\<rparr>"
  "example_inputs ''in/data_file_4.csv'' =
     Some \<lparr>fsize = 30, parsed = Inr \<lparr>columns = [''name'', ''location''], rows = []\<rparr>\<rparr>"
  by (simp_all add: example_inputs_def)

lemma example_world_fields:
  "inputs example_world = example_inputs" "ledger example_world = None"
  "logged example_world = []" "trace example_world = []" "outputs example_world = Map.empty"
  by (simp_all add: example_world_def)

lemma example_load: "load_processed_files example_world = {}"
  by (simp add: load_processed_files_def example_world_fields)

text \<open>
  C6. For every candidate file path, the file check evaluates three predicates in a fixed
  order and reports the first that matches: already processed if the base name is in the
  ledger; otherwise empty if the size is zero, whatever the extension; otherwise invalid
  extension if the path does not end in \<open>.csv\<close>; otherwise the file is admitted. The
  check returns \<open>False\<close> with the warning of that reason, or \<open>True\<close> and no warning.
\<close>

theorem file_check_module_admits:
  assumes "inputs w file_path = Some f"
  shows "file_check_module w file_path =
     Inr (case admit (load_processed_files w) (fsize f) file_path of
            Admit \<Rightarrow> (True, w)
          | Skip r \<Rightarrow> (False, logging (Skipping (basename file_path) r) w))"
  using assms by (simp add: file_check_module_def admit_def getsize_def Let_def)

theorem file_check_module_admits_witness:
  "file_check_module example_world ''in/data_file_1.csv'' = Inr (True, example_world)
   \<and> file_check_module example_world ''in/data_file_2.csv'' =
       Inr (False, logging (Skipping ''data_file_2.csv'' EmptyFile) example_world)
   \<and> file_check_module (save_processed_files ''data_file_2.csv'' example_world) ''in/data_file_2.csv'' =
       Inr (False, logging (Skipping ''data_file_2.csv'' AlreadyProcessed)
                     (save_processed_files ''data_file_2.csv'' example_world))"
proof -
  have 1: "file_check_module example_world ''in/data_file_1.csv'' = Inr (True, example_world)"
    using file_check_module_admits[of example_world "''in/data_file_1.csv''"]
    by (simp add: example_world_fields example_inputs_at admit_def example_load example_endswith)
  have 2: "file_check_module example_world ''in/data_file_2.csv'' =
       Inr (False, logging (Skipping ''data_file_2.csv'' EmptyFile) example_world)"
    using file_check_module_admits[of example_world "''in/data_file_2.csv''"]
    by (simp add: example_world_fields example_inputs_at admit_def example_load example_basenames)
  have 3: "file_check_module (save_processed_files ''data_file_2.csv'' example_world) ''in/data_file_2.csv'' =
       Inr (False, logging (Skipping ''data_file_2.csv'' AlreadyProcessed)
                     (save_processed_files ''data_file_2.csv'' example_world))"
    using file_check_module_admits[of "save_processed_files ''data_file_2.csv'' example_world"
        "''in/data_file_2.csv''"]
    by (simp add: save_fields example_world_fields example_inputs_at admit_def load_ledger_names
        ledger_names_save example_basenames)
  from 1 2 3 show ?thesis by simp
qed

section \<open>Running the pipeline twice\<close>

lemma logged_write:
  "\<exists>l. logged (write_output_files df out base w) = logged w @ l"
  by (simp add: write_output_files_def now_def Let_def logging_def)

lemma loop_body_log: "\<exists>l. logged (fst (loop_body out p w)) = logged w @ l"
proof (cases "basename p \<in> load_processed_files w")
  case True
  then show ?thesis by (simp add: loop_body_recorded logging_fields)
next
  case False
  show ?thesis
  proof (cases "processable (inputs w) p")
    case True
    from loop_body_processable[OF False True, of out] obtain df where
      b: "loop_body out p w = (save_processed_files (basename p)
            (write_output_files df out (fst (splitext (basename p)))
               (logging (Processing (basename p)) w)), None)"
      by blast
    from logged_write[of df out "fst (splitext (basename p))" "logging (Processing (basename p)) w"]
    show ?thesis by (auto simp: b save_fields logging_fields)
  next
    case np: False
    from False np show ?thesis
      by (auto simp: loop_body_def file_check_module_def Let_def getsize_def read_csv_def
          processable_def logging_fields split: option.splits sum.splits)
  qed
qed

lemma main_loop_log: "\<exists>l. logged (fst (main_loop out ps w)) = logged w @ l"
proof (induction ps arbitrary: w)
  case Nil
  then show ?case by simp
next
  case (Cons p ps)
  obtain w1 r where b: "loop_body out p w = (w1, r)" by (cases "loop_body out p w")
  from loop_body_log[of out p w] b obtain l1 where l1: "logged w1 = logged w @ l1" by auto
  show ?case
  proof (cases r)
    case None
    from Cons.IH[of w1] obtain l2 where "logged (fst (main_loop out ps w1)) = logged w1 @ l2" ..
    with b None l1 show ?thesis by simp
  next
    case (Some e)
    with b l1 show ?thesis by simp
  qed
qed

text \<open>In a pass that ends without an exception, every path whose name is in the ledger is
  reported as already processed.\<close>

lemma recorded_paths_reported:
  assumes "snd (main_loop out ps v) = None" and "p \<in> set ps"
    and "basename p \<in> load_processed_files v"
  shows "\<exists>l. logged (fst (main_loop out ps v)) = logged v @ l \<and>
             Skipping (basename p) AlreadyProcessed \<in> set l"
  using assms
proof (induction ps arbitrary: v)
  case Nil
  then show ?case by simp
next
  case (Cons q ps)
  obtain v1 r where b: "loop_body out q v = (v1, r)" by (cases "loop_body out q v")
  have r: "r = None"
  proof (cases r)
    case (Some e)
    with b Cons.prems(1) show ?thesis by simp
  qed simp
  with b have m: "main_loop out (q # ps) v = main_loop out ps v1" by simp
  from loop_body_log[of out q v] b obtain l1 where l1: "logged v1 = logged v @ l1" by auto
  from main_loop_log[of out ps v1] obtain l2 where
    l2: "logged (fst (main_loop out ps v1)) = logged v1 @ l2" ..
  show ?case
  proof (cases "p = q")
    case True
    with Cons.prems(3) b have "v1 = logging (Skipping (basename p) AlreadyProcessed) v"
      by (simp add: loop_body_recorded)
    then have "logged v1 = logged v @ [Skipping (basename p) AlreadyProcessed]"
      by (simp add: logging_fields)
    with l2 show ?thesis unfolding m by simp
  next
    case False
    with Cons.prems(2) have "p \<in> set ps" by simp
    moreover from loop_body_keeps[of out q v] b Cons.prems(3)
    have "basename p \<in> load_processed_files v1" by auto
    moreover from Cons.prems(1) have "snd (main_loop out ps v1) = None" unfolding m .
    ultimately obtain l where "logged (fst (main_loop out ps v1)) = logged v1 @ l"
      "Skipping (basename p) AlreadyProcessed \<in> set l"
      using Cons.IH[of v1] by blast
    with l1 show ?thesis unfolding m by simp
  qed
qed

lemma example_empty_pass:
  assumes "inputs v = example_inputs" and "ledger v = None"
  shows "main [''in/data_file_2.csv''] out v =
     (logging Complete (logging (Skipping ''data_file_2.csv'' EmptyFile) v), None)"
  using assms
  by (simp add: main_def loop_body_def file_check_module_def Let_def load_processed_files_def
      getsize_def example_inputs_at example_basenames)

text \<open>
  C7, as the claim words it, fails. With one empty input file the first run skips the
  file as empty and records nothing, and the second run skips it as empty again: no file
  is skipped as already processed.
\<close>

theorem empty_file_is_never_already_processed:
  "logged (fst (main [''in/data_file_2.csv''] ''out''
             (fst (main [''in/data_file_2.csv''] ''out'' example_world)))) =
     [Skipping ''data_file_2.csv'' EmptyFile, Complete,
      Skipping ''data_file_2.csv'' EmptyFile, Complete]"
  by (simp add: example_empty_pass example_world_fields logging_fields)

text \<open>
  C7, amended. Running the pipeline a second time over the same paths, with the input
  files unchanged and the ledger the first run left, writes no output file and no ledger
  entry and ends as the first run did; when the first run ended without an exception,
  every path whose name the ledger then holds is skipped as already processed. (The
  paths the first run skipped as empty or could not read are not in the ledger and are
  skipped or fail again.)
\<close>

theorem second_run_writes_nothing:
  "ledger (fst (main ps out (fst (main ps out w)))) = ledger (fst (main ps out w))
   \<and> outputs (fst (main ps out (fst (main ps out w)))) = outputs (fst (main ps out w))
   \<and> trace (fst (main ps out (fst (main ps out w)))) = trace (fst (main ps out w))
   \<and> snd (main ps out (fst (main ps out w))) = snd (main ps out w)
   \<and> (snd (main ps out w) = None \<longrightarrow>
        (\<forall>p \<in> set ps. basename p \<in> load_processed_files (fst (main ps out w)) \<longrightarrow>
           Skipping (basename p) AlreadyProcessed
             \<in> set (drop (length (logged (fst (main ps out w))))
                       (logged (fst (main ps out (fst (main ps out w))))))))"
proof -
  define w0 where "w0 = fst (main_loop out ps w)"
  define w1 where "w1 = fst (main ps out w)"
  define w2 where "w2 = fst (main_loop out ps w1)"
  define w3 where "w3 = fst (main ps out w1)"
  have q01: "quiet w0 w1" unfolding w0_def w1_def by (rule main_fst)
  have q23: "quiet w2 w3" unfolding w2_def w3_def by (rule main_fst)
  have "inputs w1 = inputs w"
    using main_loop_keeps[of out ps w] q01 by (simp add: quiet_fields w0_def)
  moreover have "load_processed_files w1 = load_processed_files (fst (main_loop out ps w))"
    using q01 by (simp add: load_quiet w0_def)
  ultimately have s: "quiet w1 w2" "snd (main_loop out ps w1) = snd (main_loop out ps w)"
    unfolding w2_def using second_pass[of w1 w out ps] by simp_all
  from s(1) q23 have q13: "quiet w1 w3" by (rule quiet_trans)
  have e: "snd (main ps out w1) = snd (main ps out w)"
    by (simp add: main_snd s(2))
  have r: "Skipping (basename p) AlreadyProcessed \<in> set (drop (length (logged w1)) (logged w3))"
    if n: "snd (main ps out w) = None" and p: "p \<in> set ps"
      and b: "basename p \<in> load_processed_files w1" for p
  proof -
    from n have n1: "snd (main_loop out ps w1) = None" by (simp add: s(2) main_snd)
    from recorded_paths_reported[OF this p b] obtain l where
      l: "logged w2 = logged w1 @ l" "Skipping (basename p) AlreadyProcessed \<in> set l"
      unfolding w2_def by blast
    from n1 obtain a where a: "main_loop out ps w1 = (a, None)"
      by (cases "main_loop out ps w1") auto
    then have "a = w2" "main ps out w1 = (logging Complete a, None)"
      by (simp_all add: w2_def main_def)
    then have "logged w3 = logged w1 @ l @ [Complete]"
      using l(1) by (simp add: w3_def logging_fields)
    with l(2) show ?thesis by simp
  qed
  from q13 e r show ?thesis
    unfolding w1_def[symmetric] w3_def[symmetric] by (simp add: quiet_fields)
qed

lemma example_processable: "processable (inputs example_world) ''in/data_file_1.csv''"
  using example_module
  by (auto simp: processable_def example_world_fields example_inputs_at example_endswith)

lemma example_first_pass:
  "\<exists>df. main [''in/data_file_1.csv''] ''out'' example_world =
     (logging Complete
        (save_processed_files ''data_file_1.csv''
           (write_output_files df ''out'' (fst (splitext ''data_file_1.csv''))
              (logging (Processing ''data_file_1.csv'') example_world))), None)"
proof -
  have "basename ''in/data_file_1.csv'' \<notin> load_processed_files example_world"
    by (simp add: example_load)
  from loop_body_processable[OF this example_processable, of "''out''"]
  show ?thesis by (auto simp: main_def example_basenames)
qed

theorem second_run_writes_nothing_witness:
  "snd (main [''in/data_file_1.csv''] ''out'' example_world) = None
   \<and> ''data_file_1.csv'' \<in> load_processed_files (fst (main [''in/data_file_1.csv''] ''out'' example_world))
   \<and> Skipping ''data_file_1.csv'' AlreadyProcessed
       \<in> set (drop (length (logged (fst (main [''in/data_file_1.csv''] ''out'' example_world))))
                 (logged (fst (main [''in/data_file_1.csv''] ''out''
                            (fst (main [''in/data_file_1.csv''] ''out'' example_world))))))"
proof -
  let ?w1 = "fst (main [''in/data_file_1.csv''] ''out'' example_world)"
  from example_first_pass obtain df where
    m: "main [''in/data_file_1.csv''] ''out'' example_world =
     (logging Complete
        (save_processed_files ''data_file_1.csv''
           (write_output_files df ''out'' (fst (splitext ''data_file_1.csv''))
              (logging (Processing ''data_file_1.csv'') example_world))), None)" ..
  have 1: "snd (main [''in/data_file_1.csv''] ''out'' example_world) = None"
    by (simp add: m)
  have 2: "basename ''in/data_file_1.csv'' \<in> load_processed_files ?w1"
    by (simp add: m load_quiet[OF quiet_logging] load_after_processing example_basenames)
  from second_run_writes_nothing[of "[''in/data_file_1.csv'']" "''out''" example_world] 1 2
  have "Skipping (basename ''in/data_file_1.csv'') AlreadyProcessed
       \<in> set (drop (length (logged ?w1))
                 (logged (fst (main [''in/data_file_1.csv''] ''out'' ?w1))))"
    by simp
  with 1 2 show ?thesis by (simp add: example_basenames)
qed

section \<open>A table without a required column\<close>

lemma example_no_phone_column:
  "data_quality_check_module \<lparr>columns = [''name'', ''location''], rows = []\<rparr> = Inl (KeyError ''phone'')"
proof -
  have "''phone'' \<notin> set (columns (init_columns \<lparr>columns = [''name'', ''location''], rows = []\<rparr>))"
    by (simp add: columns_init_columns)
  then have p: "phone_rule (init_columns \<lparr>columns = [''name'', ''location''], rows = []\<rparr>) =
      Inl (KeyError ''phone'')"
    by (rule phone_rule_missing)
  show ?thesis unfolding data_quality_check_module_def p by simp
qed

lemma loop_body_key_error:
  assumes "basename p \<notin> load_processed_files w"
    and "inputs w p = Some f" and "fsize f \<noteq> 0" and "endswith p ''.csv''"
    and "parsed f = Inr df0" and "data_quality_check_module df0 = Inl e"
  shows "loop_body out p w = (logging (Processing (basename p)) w, Some e)"
  using assms
  by (simp add: loop_body_def file_check_module_def Let_def getsize_def read_csv_def logging_fields)

lemma example_fourth_file:
  "basename ''in/data_file_4.csv'' \<notin> load_processed_files example_world"
  "inputs example_world ''in/data_file_4.csv'' =
     Some \<lparr>fsize = 30, parsed = Inr \<lparr>columns = [''name'', ''location''], rows = []\<rparr>\<rparr>"
  "fsize \<lparr>fsize = 30, parsed = Inr \<lparr>columns = [''name'', ''location''], rows = []\<rparr>\<rparr> \<noteq> 0"
  "endswith ''in/data_file_4.csv'' ''.csv''"
  "parsed \<lparr>fsize = 30, parsed = Inr \<lparr>columns = [''name'', ''location''], rows = []\<rparr>\<rparr> =
     Inr \<lparr>columns = [''name'', ''location''], rows = []\<rparr>"
  by (simp_all add: example_load example_world_fields example_inputs_at example_endswith)

text \<open>
  C8. The claim: a table without a required column makes the quality module fail for that
  file only; the file is not recorded and the orchestrator goes on with the next
  candidate file. The loop does exactly this when a file cannot be read, inside its
  \<open>try\<close>; the call of the quality module stands just outside that \<open>try\<close>. The fourth
  example file has no column \<open>phone\<close>; the first is a good file that is not in the
  ledger. On the two in this order the run ends at the fourth file with \<open>KeyError\<close>: the
  file is not recorded, but the good file after it is never looked at and the closing
  message is not logged.
\<close>

theorem missing_column_stops_the_batch:
  "main [''in/data_file_4.csv'', ''in/data_file_1.csv''] ''out'' example_world =
     (logging (Processing ''data_file_4.csv'') example_world, Some (KeyError ''phone''))
   \<and> processable (inputs example_world) ''in/data_file_1.csv''
   \<and> basename ''in/data_file_1.csv'' \<notin> load_processed_files example_world"
proof -
  have "loop_body ''out'' ''in/data_file_4.csv'' example_world =
      (logging (Processing (basename ''in/data_file_4.csv'')) example_world, Some (KeyError ''phone''))"
    by (rule loop_body_key_error[OF example_fourth_file example_no_phone_column])
  then have "main [''in/data_file_4.csv'', ''in/data_file_1.csv''] ''out'' example_world =
     (logging (Processing ''data_file_4.csv'') example_world, Some (KeyError ''phone''))"
    by (simp add: main_def example_basenames)
  with example_processable show ?thesis by (simp add: example_load)
qed

text \<open>
  The same on every state and every batch that begins with such a file: the quality
  module raises \<open>KeyError\<close> for a missing column, nothing is written for the file, the
  file is not recorded, and the run ends there with that exception.
\<close>

lemma missing_column_ends_the_run:
  assumes "basename p \<notin> load_processed_files w"
    and "inputs w p = Some f" and "fsize f \<noteq> 0" and "endswith p ''.csv''"
    and "parsed f = Inr df0" and "\<not> has_columns df0"
  shows "\<exists>c. c \<in> {''phone'', ''name'', ''location'', ''address'', ''reviews_list''}
     \<and> c \<notin> set (columns df0)
     \<and> data_quality_check_module df0 = Inl (KeyError c)
     \<and> main (p # rest) out w = (logging (Processing (basename p)) w, Some (KeyError c))"
proof -
  from module_missing[OF assms(6)] obtain c where
    c: "data_quality_check_module df0 = Inl (KeyError c)" "c \<notin> set (columns df0)"
       "c \<in> {''phone'', ''name'', ''location'', ''address'', ''reviews_list''}"
    by (elim exE conjE) (rule that, assumption+)
  from assms(1-5) c(1) have "loop_body out p w = (logging (Processing (basename p)) w, Some (KeyError c))"
    by (rule loop_body_key_error)
  then have "main (p # rest) out w = (logging (Processing (basename p)) w, Some (KeyError c))"
    by (simp add: main_def)
  with c show ?thesis by (intro exI[of _ c] conjI)
qed

lemma missing_column_ends_the_example_run:
  "\<exists>c. c \<notin> set [''name'', ''location'']
     \<and> main [''in/data_file_4.csv'', ''in/data_file_1.csv''] ''out'' example_world =
         (logging (Processing ''data_file_4.csv'') example_world, Some (KeyError c))"
proof -
  have h: "\<not> has_columns \<lparr>columns = [''name'', ''location''], rows = []\<rparr>"
    by (simp add: has_columns_def)
  from missing_column_ends_the_run[OF example_fourth_file h, of "[''in/data_file_1.csv'']" "''out''"]
  obtain c where "c \<notin> set (columns \<lparr>columns = [''name'', ''location''], rows = []\<rparr>)"
    "main (''in/data_file_4.csv'' # [''in/data_file_1.csv'']) ''out'' example_world =
         (logging (Processing (basename ''in/data_file_4.csv'')) example_world, Some (KeyError c))"
    by (elim exE conjE) (rule that, assumption+)
  then have "c \<notin> set [''name'', ''location''] \<and>
     main [''in/data_file_4.csv'', ''in/data_file_1.csv''] ''out'' example_world =
         (logging (Processing ''data_file_4.csv'') example_world, Some (KeyError c))"
    by (simp add: example_basenames)
  then show ?thesis ..
qed

section \<open>Uniqueness of the names in the ledger\<close>

lemma ledger_names_quiet: "quiet w w' \<Longrightarrow> ledger_names w' = ledger_names w"
  by (simp add: ledger_names_def quiet_fields)

text \<open>
  A round of the loop leaves the names in the ledger as they are, or adds the base name of
  its path after the file check has found that the ledger does not hold it.
\<close>

lemma loop_body_ledger_names:
  "ledger_names (fst (loop_body out p w)) = ledger_names w \<or>
   (basename p \<notin> set (ledger_names w) \<and>
    ledger_names (fst (loop_body out p w)) = ledger_names w @ [basename p])"
proof (cases "basename p \<in> load_processed_files w")
  case True
  then show ?thesis by (simp add: loop_body_recorded ledger_names_logging)
next
  case False
  show ?thesis
  proof (cases "processable (inputs w) p")
    case True
    from loop_body_processable[OF False True, of out] obtain df where
      "loop_body out p w = (save_processed_files (basename p)
            (write_output_files df out (fst (splitext (basename p)))
               (logging (Processing (basename p)) w)), None)"
      by (elim exE conjE) (rule that, assumption+)
    with False show ?thesis
      by (simp add: ledger_names_save ledger_names_write ledger_names_logging load_ledger_names)
  next
    case np: False
    show ?thesis
    proof (cases "raises (inputs w) p")
      case None
      from loop_body_passed_over[OF False np None, of out] show ?thesis
        by (auto simp: ledger_names_quiet)
    next
      case (Some e)
      from loop_body_raises[OF False Some, of out] show ?thesis
        by (auto simp: ledger_names_quiet)
    qed
  qed
qed

lemma main_loop_distinct:
  "distinct (ledger_names w) \<Longrightarrow> distinct (ledger_names (fst (main_loop out ps w)))"
proof (induction ps arbitrary: w)
  case Nil
  then show ?case by simp
next
  case (Cons p ps)
  obtain w1 r where b: "loop_body out p w = (w1, r)" by (cases "loop_body out p w")
  from loop_body_ledger_names[of out p w] b Cons.prems have d: "distinct (ledger_names w1)"
    by auto
  show ?case
  proof (cases r)
    case None
    with b have "main_loop out (p # ps) w = main_loop out ps w1" by simp
    with Cons.IH[OF d] show ?thesis by simp
  next
    case (Some e)
    with b d show ?thesis by simp
  qed
qed

text \<open>
  C10. \<open>save_processed_files\<close> never deduplicates: it appends a record with the given
  name whatever the ledger holds, so for a name the ledger already holds the name then
  occurs twice. The names in the ledger stay unique through a run of \<open>main\<close> all the
  same, because a round of the loop adds a name only when the file check has found that
  the ledger does not hold it.
\<close>

theorem save_appends_and_main_keeps_names_unique:
  "ledger_names (save_processed_files name w) = ledger_names w @ [name]
   \<and> (name \<in> set (ledger_names w) \<longrightarrow> \<not> distinct (ledger_names (save_processed_files name w)))
   \<and> (ledger_names (fst (loop_body out p w)) \<noteq> ledger_names w \<longrightarrow>
        basename p \<notin> set (ledger_names w)
        \<and> ledger_names (fst (loop_body out p w)) = ledger_names w @ [basename p])
   \<and> (distinct (ledger_names w) \<longrightarrow> distinct (ledger_names (fst (main ps out w))))"
proof -
  have "distinct (ledger_names (fst (main ps out w)))" if "distinct (ledger_names w)"
    using main_loop_distinct[OF that, of out ps] main_fst[of out ps w]
    by (simp add: ledger_names_quiet)
  moreover have "basename p \<notin> set (ledger_names w)
        \<and> ledger_names (fst (loop_body out p w)) = ledger_names w @ [basename p]"
    if "ledger_names (fst (loop_body out p w)) \<noteq> ledger_names w"
    using loop_body_ledger_names[of out p w] that by simp
  ultimately show ?thesis by (simp add: ledger_names_save)
qed

theorem save_appends_and_main_keeps_names_unique_witness:
  "ledger_names (save_processed_files ''data_file_2.csv''
      (save_processed_files ''data_file_2.csv'' example_world)) =
     [''data_file_2.csv'', ''data_file_2.csv'']
   \<and> \<not> distinct (ledger_names (save_processed_files ''data_file_2.csv''
          (save_processed_files ''data_file_2.csv'' example_world)))
   \<and> ledger_names (fst (loop_body ''out'' ''in/data_file_1.csv'' example_world)) = [''data_file_1.csv'']
   \<and> distinct (ledger_names (fst (main [''in/data_file_1.csv''] ''out'' example_world)))"
proof -
  have n0: "ledger_names example_world = []"
    by (simp add: ledger_names_def example_world_fields)
  have n1: "ledger_names (save_processed_files ''data_file_2.csv'' example_world) = [''data_file_2.csv'']"
    by (simp add: ledger_names_save n0)
  note a = save_appends_and_main_keeps_names_unique[of "''data_file_2.csv''"
      "save_processed_files ''data_file_2.csv'' example_world" "''out''" "''in/data_file_1.csv''" "[]"]
  note b = save_appends_and_main_keeps_names_unique[of "''data_file_2.csv''"
      example_world "''out''" "''in/data_file_1.csv''" "[''in/data_file_1.csv'']"]
  have 1: "ledger_names (save_processed_files ''data_file_2.csv''
      (save_processed_files ''data_file_2.csv'' example_world)) =
     [''data_file_2.csv'', ''data_file_2.csv'']"
    using a by (simp add: n1)
  have 2: "\<not> distinct (ledger_names (save_processed_files ''data_file_2.csv''
          (save_processed_files ''data_file_2.csv'' example_world)))"
    using a by (simp add: n1)
  have "basename ''in/data_file_1.csv'' \<notin> load_processed_files example_world"
    by (simp add: example_load)
  from loop_body_processable[OF this example_processable, of "''out''"] obtain df where
    "loop_body ''out'' ''in/data_file_1.csv'' example_world =
       (save_processed_files (basename ''in/data_file_1.csv'')
            (write_output_files df ''out'' (fst (splitext (basename ''in/data_file_1.csv'')))
               (logging (Processing (basename ''in/data_file_1.csv'')) example_world)), None)"
    by (elim exE conjE) (rule that, assumption+)
  then have "ledger_names (fst (loop_body ''out'' ''in/data_file_1.csv'' example_world)) \<noteq>
      ledger_names example_world"
    by (simp add: ledger_names_save ledger_names_write ledger_names_logging n0)
  with b have 3: "ledger_names (fst (loop_body ''out'' ''in/data_file_1.csv'' example_world)) =
      [''data_file_1.csv'']"
    by (simp add: n0 example_basenames)
  have 4: "distinct (ledger_names (fst (main [''in/data_file_1.csv''] ''out'' example_world)))"
    using b by (simp add: n0)
  from 1 2 3 4 show ?thesis by simp
qed

section \<open>Outputs first, ledger last\<close>


















end
